(* ===== verification/Prelude.thy ===== *)
theory Prelude
  imports Main "HOL-Library.Word"
begin

text \<open>
  Shared vocabulary of the development: machine types of the Rust program (64-bit target,
  release build, so unsigned arithmetic wraps), the result of a fallible operation
  (\<open>Ok\<close>, \<open>Err\<close> or a panic), byte and little-endian helpers of the standard library,
  and the collections of facts that the component theories fill.
\<close>

section \<open>Fact collections\<close>

named_theorems frame_simps \<open>which fields an operation leaves alone\<close>

section \<open>Machine types\<close>

type_synonym byte = "8 word"
type_synonym u16 = "16 word"
type_synonym u32 = "32 word"
type_synonym u64 = "64 word"
type_synonym usize = "64 word"

text \<open>A Rust \<open>String\<close> is its UTF-8 byte sequence, one \<open>char\<close> per byte.\<close>

definition as_bytes :: "string \<Rightarrow> byte list" where
  "as_bytes s = map of_char s"

text \<open>\<open>Instant\<close> and \<open>Duration\<close> are counted in nanoseconds.\<close>

type_synonym instant = nat
type_synonym duration = nat

definition from_secs :: "nat \<Rightarrow> duration" where
  "from_secs n = n * 1000000000"

section \<open>Results\<close>

text \<open>
  The result of a Rust operation that returns \<open>Result\<close>: a value, an error, or a panic that
  unwinds the task. An operation on shared state also returns the state it leaves behind in
  every case, because the code may change the state before it fails.
\<close>

datatype ('a, 'e) res = Ok 'a | Err 'e | Panic

type_synonym ('s, 'e, 'o) outcome = "(unit, 'e) res \<times> 's \<times> 'o list"

text \<open>\<open>send\<close> puts messages on channels and goes on, as \<open>let _ = tx.send(..).await;\<close> does.\<close>

definition emit :: "'o list \<Rightarrow> ('s, 'e, 'o) outcome \<Rightarrow> ('s, 'e, 'o) outcome" where
  "emit os out = (case out of (r, s, os') \<Rightarrow> (r, s, os @ os'))"

lemma emit_simp [simp]: "emit os (r, s, os') = (r, s, os @ os')"
  by (simp add: emit_def)

lemma emit_eq_iff:
  "emit os out = (r, s, os'') \<longleftrightarrow> (\<exists>os'. out = (r, s, os') \<and> os'' = os @ os')"
  by (cases out) auto

section \<open>Little-endian byte strings\<close>

fun le_bytes :: "nat \<Rightarrow> nat \<Rightarrow> byte list" where
  "le_bytes 0 x = []"
| "le_bytes (Suc n) x = word_of_nat (x mod 256) # le_bytes n (x div 256)"

fun le_value :: "byte list \<Rightarrow> nat" where
  "le_value [] = 0"
| "le_value (b # bs) = unat b + 256 * le_value bs"

lemma length_le_bytes [simp]: "length (le_bytes n x) = n"
  by (induction n arbitrary: x) auto

lemma le_bytes_zero: "le_bytes n 0 = replicate n 0"
  by (induction n) simp_all

lemma unat_byte_of_mod [simp]: "unat (word_of_nat (x mod 256) :: byte) = x mod 256"
  by (simp add: unat_of_nat)

lemma le_value_le_bytes: "le_value (le_bytes n x) = x mod 256 ^ n"
proof (induction n arbitrary: x)
  case 0
  then show ?case by simp
next
  case (Suc n)
  have "x mod 256 + 256 * (x div 256 mod 256 ^ n) = x mod (256 * 256 ^ n)"
    by (simp add: mod_mult2_eq)
  with Suc show ?case by simp
qed

lemma le_value_bound: "le_value bs < 256 ^ length bs"
proof (induction bs)
  case Nil
  then show ?case by simp
next
  case (Cons b bs)
  have "unat b < 256" using unsigned_less [of b] by simp
  with Cons show ?case by simp
qed

lemma le_bytes_le_value: "le_bytes (length bs) (le_value bs) = bs"
proof (induction bs)
  case Nil
  then show ?case by simp
next
  case (Cons b bs)
  have b: "unat b < 256" using unsigned_less [of b] by simp
  then have "(unat b + 256 * le_value bs) mod 256 = unat b"
    and "(unat b + 256 * le_value bs) div 256 = le_value bs"
    by simp_all
  with Cons show ?case by simp
qed

lemma le_bytes_inject:
  assumes "le_bytes n x = le_bytes n y" and "x < 256 ^ n" and "y < 256 ^ n"
  shows "x = y"
proof -
  have "x mod 256 ^ n = y mod 256 ^ n"
    using arg_cong [OF assms(1), of le_value] by (simp add: le_value_le_bytes)
  with assms(2,3) show ?thesis by simp
qed

definition u64_to_le_bytes :: "u64 \<Rightarrow> byte list" where
  "u64_to_le_bytes w = le_bytes 8 (unat w)"

definition u32_to_le_bytes :: "u32 \<Rightarrow> byte list" where
  "u32_to_le_bytes w = le_bytes 4 (unat w)"

definition u32_from_le_bytes :: "byte list \<Rightarrow> u32" where
  "u32_from_le_bytes bs = word_of_nat (le_value bs)"

lemma length_u64_to_le_bytes [simp]: "length (u64_to_le_bytes w) = 8"
  by (simp add: u64_to_le_bytes_def)

lemma length_u32_to_le_bytes [simp]: "length (u32_to_le_bytes w) = 4"
  by (simp add: u32_to_le_bytes_def)

lemma u64_to_le_bytes_inject: "u64_to_le_bytes v = u64_to_le_bytes w \<longleftrightarrow> v = w"
proof
  assume "u64_to_le_bytes v = u64_to_le_bytes w"
  moreover have "unat v < 256 ^ 8" and "unat w < 256 ^ 8"
    using unsigned_less [of v] unsigned_less [of w] by simp_all
  ultimately have "unat v = unat w"
    unfolding u64_to_le_bytes_def by (rule le_bytes_inject)
  then show "v = w" by (simp add: word_unat_eq_iff)
qed simp

lemma u32_le_roundtrip [simp]: "u32_from_le_bytes (u32_to_le_bytes w) = w"
proof -
  have "unat w < 256 ^ 4" using unsigned_less [of w] by simp
  then show ?thesis
    by (simp add: u32_from_le_bytes_def u32_to_le_bytes_def le_value_le_bytes)
qed

lemma as_bytes_inject: "as_bytes s = as_bytes t \<longleftrightarrow> s = t"
proof
  have "of_char c = (of_char d :: byte) \<Longrightarrow> c = d" for c d
  proof -
    assume "of_char c = (of_char d :: byte)"
    then have "unat (of_nat (of_char c) :: byte) = unat (of_nat (of_char d) :: byte)"
      by (simp only: of_nat_of_char)
    then have "of_char c mod (256::nat) = of_char d mod 256"
      by (simp only: unat_of_nat) simp
    then show "c = d" by simp
  qed
  then have "inj (of_char :: char \<Rightarrow> byte)" by (auto intro: injI)
  then show "as_bytes s = as_bytes t \<Longrightarrow> s = t"
    by (simp add: as_bytes_def inj_map_eq_map)
qed simp

lemma as_bytes_append [simp]: "as_bytes (s @ t) = as_bytes s @ as_bytes t"
  by (simp add: as_bytes_def)

lemma length_as_bytes [simp]: "length (as_bytes s) = length s"
  by (simp add: as_bytes_def)

section \<open>Successors of 64-bit numbers\<close>

lemma u64_less_succ: fixes x :: "u64" assumes "x + 1 \<noteq> 0" shows "x < x + 1"
proof -
  have "unat x < 2 ^ 64" using unsigned_less [of x] by simp
  moreover have "unat (x + 1) = (unat x + 1) mod 2 ^ 64" by (simp add: unat_word_ariths)
  moreover have "unat (x + 1) \<noteq> 0" using assms by (simp add: unat_eq_0)
  ultimately have "unat x < unat (x + 1)"
    by (cases "unat x + 1 = 2 ^ 64") simp_all
  then show ?thesis by (simp add: word_less_nat_alt)
qed

lemma u64_le_succ: "h < x + 1 \<Longrightarrow> x \<le> x + (1 :: u64)"
  using u64_less_succ [of x] by (metis less_imp_le word_not_simps(1))

section \<open>Runs with effects\<close>

text \<open>
  A run of a step relation whose steps leave effects behind, and the contract of an invariant
  that may look at the history of effects: what every step keeps, every run keeps.
\<close>

inductive etrace :: "('s \<Rightarrow> 'e list \<Rightarrow> 's \<Rightarrow> bool) \<Rightarrow> 's \<Rightarrow> 'e list \<Rightarrow> 's \<Rightarrow> bool"
  for step where
  etrace_refl: "etrace step s [] s"
| etrace_step: "step s es s' \<Longrightarrow> etrace step s' es' s'' \<Longrightarrow> etrace step s (es @ es') s''"

lemma etrace_single: "step s es s' \<Longrightarrow> etrace step s es s'"
  using etrace_step [OF _ etrace_refl, of step s es s'] by simp

lemma etrace_trans:
  "etrace step s es s' \<Longrightarrow> etrace step s' es' s'' \<Longrightarrow> etrace step s (es @ es') s''"
proof (induction rule: etrace.induct)
  case (etrace_refl s)
  then show ?case by simp
next
  case (etrace_step s es t fs u)
  then show ?case by (simp add: etrace.etrace_step)
qed

lemma etrace_nil_step: "step s [] s' \<Longrightarrow> etrace step s' es s'' \<Longrightarrow> etrace step s es s''"
  using etrace_step [of step s "[]" s' es s''] by simp

lemma etrace_outcome:
  assumes "etrace step s es s'" and "\<And>r s'' es'. out = (r, s'', es') \<Longrightarrow> etrace step s' es' s''"
    and "emit es out = (r, t, fs)"
  shows "etrace step s fs t"
  using assms by (auto simp: emit_eq_iff intro: etrace_trans)

locale history_invariant =
  fixes step :: "'s \<Rightarrow> 'e list \<Rightarrow> 's \<Rightarrow> bool"
    and inv :: "'s \<Rightarrow> 'e list \<Rightarrow> bool"
  assumes step_keeps: "inv s h \<Longrightarrow> step s es s' \<Longrightarrow> inv s' (h @ es)"
begin

lemma trace_keeps: "etrace step s es s' \<Longrightarrow> inv s h \<Longrightarrow> inv s' (h @ es)"
proof (induction arbitrary: h rule: etrace.induct)
  case (etrace_refl s)
  then show ?case by simp
next
  case (etrace_step s es t fs u)
  then have "inv u ((h @ es) @ fs)" by (blast intro: step_keeps)
  then show ?case by simp
qed

lemma trace_from_start: "etrace step s es s' \<Longrightarrow> inv s [] \<Longrightarrow> inv s' es"
  using trace_keeps [of s es s' "[]"] by simp

end

end
