(* ===== verification/Crypto.thy ===== *)
theory Crypto
  imports Prelude
begin

text \<open>
  \<open>src/crypto.rs\<close>: key pairs, signing, and signature verification. SHA-256, Ed25519 and the
  \<open>hex\<close> crate are not part of the repository: they are the fields of \<open>crypto_lib\<close>, which
  every definition that uses them takes as its argument. \<open>crypto_ok\<close> states their documented
  behaviour. The types of signing and verifying keys are the parameters \<open>'sk\<close> and \<open>'vk\<close>.
\<close>

section \<open>The external libraries\<close>

record ('sk, 'vk) crypto_lib =
  lib_sha256 :: "byte list \<Rightarrow> byte list"
  lib_sk_generate :: "byte list \<Rightarrow> 'sk"
  lib_sk_from_bytes :: "byte list \<Rightarrow> 'sk"
  lib_sk_verifying_key :: "'sk \<Rightarrow> 'vk"
  lib_sk_sign :: "'sk \<Rightarrow> byte list \<Rightarrow> byte list"
  lib_vk_verify :: "'vk \<Rightarrow> byte list \<Rightarrow> byte list \<Rightarrow> bool"
  lib_vk_to_bytes :: "'vk \<Rightarrow> byte list"
  lib_vk_from_bytes :: "byte list \<Rightarrow> 'vk option"
  lib_hex_encode :: "byte list \<Rightarrow> string"
  lib_hex_decode :: "string \<Rightarrow> byte list option"

definition hex_digits :: string where
  "hex_digits = ''0123456789abcdef''"

definition crypto_ok :: "('sk, 'vk) crypto_lib \<Rightarrow> bool" where
  "crypto_ok L \<longleftrightarrow>
     (\<forall>m. length (lib_sha256 L m) = 32) \<and>
     (\<forall>sk m. length (lib_sk_sign L sk m) = 64) \<and>
     (\<forall>vk. length (lib_vk_to_bytes L vk) = 32) \<and>
     (\<forall>vk. lib_vk_from_bytes L (lib_vk_to_bytes L vk) = Some vk) \<and>
     (\<forall>sk m. lib_vk_verify L (lib_sk_verifying_key L sk) m (lib_sk_sign L sk m)) \<and>
     (\<forall>bs. lib_hex_decode L (lib_hex_encode L bs) = Some bs) \<and>
     (\<forall>bs. length (lib_hex_encode L bs) = 2 * length bs) \<and>
     (\<forall>bs. set (lib_hex_encode L bs) \<subseteq> set hex_digits)"

section \<open>Key pairs\<close>

datatype crypto_error = SignatureVerificationFailed | InvalidKeyFormat | SigningFailed string

record ('sk, 'vk) keypair =
  signing_key :: 'sk
  verifying_key :: 'vk

text \<open>\<open>KeyPair::generate\<close>; the argument is what the system's random generator returns.\<close>

definition keypair_generate :: "('sk, 'vk) crypto_lib \<Rightarrow> byte list \<Rightarrow> ('sk, 'vk) keypair" where
  "keypair_generate L entropy =
     (let sk = lib_sk_generate L entropy
      in \<lparr>signing_key = sk, verifying_key = lib_sk_verifying_key L sk\<rparr>)"

definition keypair_from_seed :: "('sk, 'vk) crypto_lib \<Rightarrow> byte list \<Rightarrow> ('sk, 'vk) keypair" where
  "keypair_from_seed L seed =
     (let sk = lib_sk_from_bytes L seed
      in \<lparr>signing_key = sk, verifying_key = lib_sk_verifying_key L sk\<rparr>)"

definition keypair_sign :: "('sk, 'vk) crypto_lib \<Rightarrow> ('sk, 'vk) keypair \<Rightarrow> byte list \<Rightarrow> byte list" where
  "keypair_sign L kp message = lib_sk_sign L (signing_key kp) message"

definition keypair_verify ::
  "('sk, 'vk) crypto_lib \<Rightarrow> ('sk, 'vk) keypair \<Rightarrow> byte list \<Rightarrow> byte list \<Rightarrow> (unit, crypto_error) res" where
  "keypair_verify L kp message signature =
     (if length signature \<noteq> 64 then Err InvalidKeyFormat
      else if lib_vk_verify L (verifying_key kp) message signature then Ok ()
      else Err SignatureVerificationFailed)"

definition public_key_bytes :: "('sk, 'vk) crypto_lib \<Rightarrow> ('sk, 'vk) keypair \<Rightarrow> byte list" where
  "public_key_bytes L kp = lib_vk_to_bytes L (verifying_key kp)"

definition public_key_hex :: "('sk, 'vk) crypto_lib \<Rightarrow> ('sk, 'vk) keypair \<Rightarrow> string" where
  "public_key_hex L kp = lib_hex_encode L (public_key_bytes L kp)"

section \<open>Verification by public key\<close>

definition verify_signature ::
  "('sk, 'vk) crypto_lib \<Rightarrow> byte list \<Rightarrow> byte list \<Rightarrow> byte list \<Rightarrow> (unit, crypto_error) res" where
  "verify_signature L public_key message signature =
     (if length public_key \<noteq> 32 then Err InvalidKeyFormat
      else case lib_vk_from_bytes L public_key of
        None \<Rightarrow> Err InvalidKeyFormat
      | Some vk \<Rightarrow>
          if length signature \<noteq> 64 then Err InvalidKeyFormat
          else if lib_vk_verify L vk message signature then Ok ()
          else Err SignatureVerificationFailed)"

text \<open>The two private helpers of \<open>src/pbft.rs\<close> that verify by node identifier.\<close>

definition node_id_to_public_key :: "('sk, 'vk) crypto_lib \<Rightarrow> string \<Rightarrow> byte list option" where
  "node_id_to_public_key L node_id = lib_hex_decode L node_id"

definition verify_node_signature ::
  "('sk, 'vk) crypto_lib \<Rightarrow> string \<Rightarrow> byte list \<Rightarrow> byte list \<Rightarrow> bool" where
  "verify_node_signature L node_id message signature =
     (case node_id_to_public_key L node_id of
        Some pk \<Rightarrow> verify_signature L pk message signature = Ok ()
      | None \<Rightarrow> False)"

section \<open>Correctness\<close>

definition keypair_wf :: "('sk, 'vk) crypto_lib \<Rightarrow> ('sk, 'vk) keypair \<Rightarrow> bool" where
  "keypair_wf L kp \<longleftrightarrow> verifying_key kp = lib_sk_verifying_key L (signing_key kp)"

lemma keypair_wf_generate [simp]: "keypair_wf L (keypair_generate L e)"
  by (simp add: keypair_wf_def keypair_generate_def Let_def)

lemma keypair_wf_from_seed [simp]: "keypair_wf L (keypair_from_seed L s)"
  by (simp add: keypair_wf_def keypair_from_seed_def Let_def)

lemma crypto_okD:
  assumes "crypto_ok L"
  shows "length (lib_sha256 L m) = 32" "length (lib_sk_sign L sk m) = 64"
    "length (lib_vk_to_bytes L vk) = 32" "lib_vk_from_bytes L (lib_vk_to_bytes L vk) = Some vk"
    "lib_vk_verify L (lib_sk_verifying_key L sk) m (lib_sk_sign L sk m)"
    "lib_hex_decode L (lib_hex_encode L bs) = Some bs"
    "length (lib_hex_encode L bs) = 2 * length bs" "set (lib_hex_encode L bs) \<subseteq> set hex_digits"
  using assms by (simp_all add: crypto_ok_def)

lemma verify_signature_Ok_iff:
  "verify_signature L pk m s = Ok () \<longleftrightarrow>
     length pk = 32 \<and> length s = 64 \<and> (\<exists>vk. lib_vk_from_bytes L pk = Some vk \<and> lib_vk_verify L vk m s)"
  by (auto simp: verify_signature_def split: option.splits)

lemma verify_node_signature_iff:
  "verify_node_signature L i m s \<longleftrightarrow>
     (\<exists>pk. lib_hex_decode L i = Some pk \<and> verify_signature L pk m s = Ok ())"
  by (simp add: verify_node_signature_def node_id_to_public_key_def split: option.splits)

lemma public_key_hex_length:
  "crypto_ok L \<Longrightarrow> length (public_key_hex L kp) = 64"
  by (simp add: public_key_hex_def public_key_bytes_def crypto_okD)

section \<open>The signing interface\<close>

text \<open>
  What the consensus engine relies on: a node's own signatures verify under the identifier
  that it announces.
\<close>

locale signature_scheme =
  fixes lib_ok :: "'l \<Rightarrow> bool"
    and key_ok :: "'l \<Rightarrow> 'kp \<Rightarrow> bool"
    and ident :: "'l \<Rightarrow> 'kp \<Rightarrow> 'id"
    and sign :: "'l \<Rightarrow> 'kp \<Rightarrow> byte list \<Rightarrow> byte list"
    and check :: "'l \<Rightarrow> 'id \<Rightarrow> byte list \<Rightarrow> byte list \<Rightarrow> bool"
  assumes own_signature: "lib_ok L \<Longrightarrow> key_ok L kp \<Longrightarrow> check L (ident L kp) m (sign L kp m)"
begin

lemma own_signature_text:
  "lib_ok L \<Longrightarrow> key_ok L kp \<Longrightarrow> i = ident L kp \<Longrightarrow> check L i (as_bytes t) (sign L kp (as_bytes t))"
  by (simp add: own_signature)

end

lemma verify_own_node_signature:
  "crypto_ok L \<Longrightarrow> keypair_wf L kp \<Longrightarrow>
     verify_node_signature L (public_key_hex L kp) m (keypair_sign L kp m)"
  by (auto simp: verify_node_signature_iff verify_signature_Ok_iff public_key_hex_def
      public_key_bytes_def keypair_sign_def keypair_wf_def crypto_okD)

interpretation ed25519: signature_scheme crypto_ok keypair_wf public_key_hex keypair_sign
  verify_node_signature
  by unfold_locales (rule verify_own_node_signature)

section \<open>Properties\<close>

text \<open>
  C24. What a key pair signs, it verifies itself, and every other node verifies it under the
  signer's public key and under the node identifier derived from it.
\<close>

theorem sign_then_verify:
  assumes "crypto_ok L" and "kp = keypair_generate L e \<or> kp = keypair_from_seed L seed"
  shows "keypair_verify L kp m (keypair_sign L kp m) = Ok () \<and>
    verify_signature L (public_key_bytes L kp) m (keypair_sign L kp m) = Ok () \<and>
    verify_node_signature L (public_key_hex L kp) m (keypair_sign L kp m)"
proof -
  have "keypair_wf L kp" using assms(2) by auto
  then have "verify_signature L (public_key_bytes L kp) m (keypair_sign L kp m) = Ok ()"
    and "keypair_verify L kp m (keypair_sign L kp m) = Ok ()"
    by (auto simp: verify_signature_Ok_iff keypair_verify_def public_key_bytes_def
        keypair_sign_def keypair_wf_def crypto_okD [OF assms(1)])
  with \<open>keypair_wf L kp\<close> assms(1) show ?thesis
    by (simp add: ed25519.own_signature)
qed

section \<open>A concrete instance of the libraries\<close>

text \<open>
  A library that meets \<open>crypto_ok\<close> and evaluates: a key is one byte (the first byte of the
  seed), the hash is the reversed text cut or padded to 32 bytes, a signature is the public key
  followed by the hash of the text, hexadecimal text is as usual. It shows that the hypotheses can hold together; it is not
  secure.
\<close>

definition pad32 :: "byte list \<Rightarrow> byte list" where
  "pad32 bs = take 32 (bs @ replicate 32 0)"

definition toy_hash :: "byte list \<Rightarrow> byte list" where
  "toy_hash m = pad32 (rev m)"

fun toy_hex_encode :: "byte list \<Rightarrow> string" where
  "toy_hex_encode [] = []"
| "toy_hex_encode (b # bs) =
     hex_digits ! (unat b div 16) # hex_digits ! (unat b mod 16) # toy_hex_encode bs"

definition toy_hex_value :: "char \<Rightarrow> nat option" where
  "toy_hex_value c =
     (let i = length (takeWhile (\<lambda>d. d \<noteq> c) hex_digits);
          j = length (takeWhile (\<lambda>d. d \<noteq> c) ''0123456789ABCDEF'')
      in if i < 16 then Some i else if j < 16 then Some j else None)"

fun toy_hex_decode :: "string \<Rightarrow> byte list option" where
  "toy_hex_decode [] = Some []"
| "toy_hex_decode [c] = None"
| "toy_hex_decode (c # d # cs) =
     (case (toy_hex_value c, toy_hex_value d) of
        (Some h, Some l) \<Rightarrow> map_option ((#) (word_of_nat (16 * h + l))) (toy_hex_decode cs)
      | _ \<Rightarrow> None)"

definition toy_lib :: "(byte, byte) crypto_lib" where
  "toy_lib = \<lparr>lib_sha256 = toy_hash, lib_sk_generate = hd, lib_sk_from_bytes = hd,
     lib_sk_verifying_key = id, lib_sk_sign = (\<lambda>sk m. pad32 [sk] @ toy_hash m),
     lib_vk_verify = (\<lambda>vk m s. s = pad32 [vk] @ toy_hash m),
     lib_vk_to_bytes = (\<lambda>vk. pad32 [vk]),
     lib_vk_from_bytes = (\<lambda>bs. case bs of [] \<Rightarrow> None | b # _ \<Rightarrow> Some b),
     lib_hex_encode = toy_hex_encode, lib_hex_decode = toy_hex_decode\<rparr>"

lemma length_pad32 [simp]: "length (pad32 bs) = 32"
  by (simp add: pad32_def)

lemma pad32_single: "pad32 [b] = b # replicate 31 0"
  by (simp add: pad32_def)

lemma toy_hex_value_digit: "n < 16 \<Longrightarrow> toy_hex_value (hex_digits ! n) = Some n"
proof -
  have "\<forall>n < 16. toy_hex_value (hex_digits ! n) = Some n"
    by (simp add: toy_hex_value_def hex_digits_def numeral_eq_Suc less_Suc_eq all_conj_distrib)
  then show "n < 16 \<Longrightarrow> ?thesis" by blast
qed

lemma byte_nibbles: "unat (b :: byte) div 16 < 16" "unat b mod 16 < 16"
proof -
  have "unat b < 256" using unsigned_less [of b] by simp
  then show "unat b div 16 < 16" "unat b mod 16 < 16" by simp_all
qed

lemma toy_hex_roundtrip: "toy_hex_decode (toy_hex_encode bs) = Some bs"
  by (induction bs) (simp_all add: toy_hex_value_digit byte_nibbles)

lemma toy_hex_encode_digits: "set (toy_hex_encode bs) \<subseteq> set hex_digits"
proof -
  have digit: "n < 16 \<Longrightarrow> hex_digits ! n \<in> set hex_digits" for n
    by (rule nth_mem) (simp add: hex_digits_def)
  show ?thesis by (induction bs) (simp_all add: digit byte_nibbles)
qed

lemma length_toy_hex_encode: "length (toy_hex_encode bs) = 2 * length bs"
  by (induction bs) simp_all

lemma toy_lib_ok: "crypto_ok toy_lib"
  by (simp add: crypto_ok_def toy_lib_def toy_hash_def toy_hex_roundtrip length_toy_hex_encode
      toy_hex_encode_digits pad32_single)

theorem sign_then_verify_witness:
  "crypto_ok toy_lib \<and>
   keypair_verify toy_lib (keypair_from_seed toy_lib (5 # replicate 31 0)) [1, 2]
     (keypair_sign toy_lib (keypair_from_seed toy_lib (5 # replicate 31 0)) [1, 2]) = Ok ()"
  using sign_then_verify [OF toy_lib_ok,
      of "keypair_from_seed toy_lib (5 # replicate 31 0)" "[]" "5 # replicate 31 0" "[1, 2]"]
  by (simp add: toy_lib_ok)

end
