(* ===== verification/Format.thy ===== *)
theory Format
  imports Prelude
begin

text \<open>
  The fragments of Rust's \<open>format!\<close> that the program uses to build the text it signs:
  \<open>{}\<close> of an unsigned integer (decimal, no leading zeros) and \<open>{:?}\<close> of a byte array
  (\<open>[a, b, c]\<close>). The lemmas show how much of the text determines its arguments.
\<close>

section \<open>Decimal display\<close>

definition digit_char :: "nat \<Rightarrow> char" where
  "digit_char d = char_of (48 + d)"

fun show_nat :: "nat \<Rightarrow> string" where
  "show_nat n = (if n < 10 then [digit_char n] else show_nat (n div 10) @ [digit_char (n mod 10)])"

declare show_nat.simps [simp del]

definition show_u64 :: "u64 \<Rightarrow> string" where
  "show_u64 w = show_nat (unat w)"

section \<open>Debug display of a byte array\<close>

fun join_comma :: "string list \<Rightarrow> string" where
  "join_comma [] = ''''"
| "join_comma [x] = x"
| "join_comma (x # y # ys) = x @ '', '' @ join_comma (y # ys)"

definition debug_bytes :: "byte list \<Rightarrow> string" where
  "debug_bytes bs = ''['' @ join_comma (map (\<lambda>b. show_nat (unat b)) bs) @ '']''"

section \<open>Digits\<close>

definition digits :: "char set" where
  "digits = digit_char ` {..<10}"

lemma digits_eq: "digits = set ''0123456789''"
proof -
  have "{..<10::nat} = {0,1,2,3,4,5,6,7,8,9}" by auto
  then show ?thesis by (simp add: digits_def digit_char_def char_of_def bit_Suc_0_iff)
qed

lemma digit_char_inject: "a < 10 \<Longrightarrow> b < 10 \<Longrightarrow> digit_char a = digit_char b \<longleftrightarrow> a = b"
  unfolding digit_char_def by (auto simp: char_of_eq_iff take_bit_eq_mod)

lemma show_nat_digits: "set (show_nat n) \<subseteq> digits"
proof (induction n rule: show_nat.induct)
  case (1 n)
  then show ?case by (subst show_nat.simps) (auto simp: digits_def)
qed

lemma show_nat_nonempty: "show_nat n \<noteq> []"
  by (subst show_nat.simps) simp

lemma show_nat_inject: "show_nat m = show_nat n \<longleftrightarrow> m = n"
proof
  show "show_nat m = show_nat n \<Longrightarrow> m = n"
  proof (induction m arbitrary: n rule: show_nat.induct)
    case (1 m)
    show ?case
    proof (cases "m < 10")
      case m: True
      show ?thesis
      proof (cases "n < 10")
        case True
        with m 1(2) show ?thesis
          by (simp add: show_nat.simps [of m] show_nat.simps [of n] digit_char_inject)
      next
        case False
        with m 1(2) show ?thesis
          by (simp add: show_nat.simps [of m] show_nat.simps [of n] show_nat_nonempty
              show_nat_nonempty [symmetric])
      qed
    next
      case m: False
      show ?thesis
      proof (cases "n < 10")
        case True
        with m 1(2) show ?thesis
          by (simp add: show_nat.simps [of m] show_nat.simps [of n] show_nat_nonempty
              show_nat_nonempty [symmetric])
      next
        case False
        with m 1(2) have "show_nat (m div 10) = show_nat (n div 10)"
          and "digit_char (m mod 10) = digit_char (n mod 10)"
          by (simp_all add: show_nat.simps [of m] show_nat.simps [of n])
        with m 1(1) have "m div 10 = n div 10" and "m mod 10 = n mod 10"
          by (auto simp: digit_char_inject)
        then show ?thesis by (metis div_mult_mod_eq)
      qed
    qed
  qed
qed simp

lemma show_u64_inject: "show_u64 v = show_u64 w \<longleftrightarrow> v = w"
  by (simp add: show_u64_def show_nat_inject word_unat_eq_iff)

lemma show_u64_digits: "set (show_u64 w) \<subseteq> digits"
  by (simp add: show_u64_def show_nat_digits)

section \<open>Reading a text back\<close>

text \<open>A run of digits ends at the first character that is none.\<close>

lemma split_digits:
  assumes "a @ c # as = b @ d # bs"
    and "set a \<subseteq> digits" and "set b \<subseteq> digits" and "c \<notin> digits" and "d \<notin> digits"
  shows "a = b \<and> c = d \<and> as = bs"
proof -
  have "takeWhile (\<lambda>x. x \<in> digits) (a @ c # as) = a"
    using assms(2,4) by (subst takeWhile_append2) auto
  moreover have "takeWhile (\<lambda>x. x \<in> digits) (b @ d # bs) = b"
    using assms(3,5) by (subst takeWhile_append2) auto
  ultimately show ?thesis using assms(1) by simp
qed

lemma not_digits [simp]:
  "CHR ''-'' \<notin> digits" "CHR '','' \<notin> digits" "CHR '']'' \<notin> digits" "CHR ''['' \<notin> digits"
  "CHR '' '' \<notin> digits" "CHR ''v'' \<notin> digits" "CHR ''n'' \<notin> digits"
  by (simp_all add: digits_eq)

lemma join_comma_close_inject:
  assumes "join_comma (map show_nat xs) @ CHR '']'' # as = join_comma (map show_nat ys) @ CHR '']'' # bs"
  shows "xs = ys \<and> as = bs"
  using assms
proof (induction xs arbitrary: ys)
  case Nil
  show ?case
  proof (cases ys)
    case Nil
    with Nil.prems show ?thesis by simp
  next
    case (Cons y zs)
    obtain c cs where "show_nat y = c # cs" and "c \<in> digits"
      using show_nat_nonempty [of y] show_nat_digits [of y] by (cases "show_nat y") auto
    moreover have "\<exists>r. join_comma (map show_nat (y # zs)) = show_nat y @ r"
      by (cases zs) auto
    ultimately have False using Nil.prems Cons not_digits(3) by auto
    then show ?thesis ..
  qed
next
  case (Cons x xs)
  have shape: "\<exists>c r. join_comma (map show_nat (z # zs)) @ CHR '']'' # ws = show_nat z @ c # r
      \<and> c \<notin> digits \<and> (zs = [] \<longrightarrow> c = CHR '']'' \<and> r = ws)
      \<and> (zs \<noteq> [] \<longrightarrow> c = CHR '','' \<and> r = CHR '' '' # join_comma (map show_nat zs) @ CHR '']'' # ws)"
    for z zs ws
    by (cases zs) auto
  show ?case
  proof (cases ys)
    case Nil
    obtain c cs where "show_nat x = c # cs" and "c \<in> digits"
      using show_nat_nonempty [of x] show_nat_digits [of x] by (cases "show_nat x") auto
    moreover have "\<exists>r. join_comma (map show_nat (x # xs)) = show_nat x @ r"
      by (cases xs) auto
    ultimately have False using Cons.prems Nil not_digits(3) by auto
    then show ?thesis ..
  next
    case ys: (Cons y zs)
    obtain c r where c: "join_comma (map show_nat (x # xs)) @ CHR '']'' # as = show_nat x @ c # r"
      "c \<notin> digits" "xs = [] \<longrightarrow> c = CHR '']'' \<and> r = as"
      "xs \<noteq> [] \<longrightarrow> c = CHR '','' \<and> r = CHR '' '' # join_comma (map show_nat xs) @ CHR '']'' # as"
      using shape [of x xs as] by blast
    obtain d t where d: "join_comma (map show_nat (y # zs)) @ CHR '']'' # bs = show_nat y @ d # t"
      "d \<notin> digits" "zs = [] \<longrightarrow> d = CHR '']'' \<and> t = bs"
      "zs \<noteq> [] \<longrightarrow> d = CHR '','' \<and> t = CHR '' '' # join_comma (map show_nat zs) @ CHR '']'' # bs"
      using shape [of y zs bs] by blast
    from Cons.prems ys c(1) d(1) have "show_nat x @ c # r = show_nat y @ d # t" by simp
    then have eq: "show_nat x = show_nat y \<and> c = d \<and> r = t"
      by (rule split_digits [OF _ show_nat_digits show_nat_digits c(2) d(2)])
    then have "x = y" by (simp add: show_nat_inject)
    moreover have "xs = zs \<and> as = bs"
    proof (cases "xs = []")
      case True
      with eq c(3) d(3,4) show ?thesis by (cases "zs = []") simp_all
    next
      case False
      with eq c(4) d(3,4) have "join_comma (map show_nat xs) @ CHR '']'' # as
          = join_comma (map show_nat zs) @ CHR '']'' # bs"
        by (cases "zs = []") simp_all
      then show ?thesis by (rule Cons.IH)
    qed
    ultimately show ?thesis using ys by simp
  qed
qed

lemma debug_bytes_append_inject:
  "debug_bytes xs @ as = debug_bytes ys @ bs \<longleftrightarrow> xs = ys \<and> as = bs"
proof
  assume "debug_bytes xs @ as = debug_bytes ys @ bs"
  then have "join_comma (map show_nat (map unat xs)) @ CHR '']'' # as
      = join_comma (map show_nat (map unat ys)) @ CHR '']'' # bs"
    by (simp add: debug_bytes_def comp_def)
  then have "map unat xs = map unat ys \<and> as = bs"
    by (rule join_comma_close_inject)
  moreover have "inj (unat :: byte \<Rightarrow> nat)"
    by (auto intro!: injI simp: word_unat_eq_iff)
  ultimately show "xs = ys \<and> as = bs" by (simp add: inj_map_eq_map)
qed simp

lemma debug_bytes_head: "\<exists>r. debug_bytes xs = CHR ''['' # r"
  by (simp add: debug_bytes_def)

end
