(* ===== verification/Messages.thy ===== *)
theory Messages
  imports Crypto Format
begin

text \<open>
  \<open>src/message.rs\<close>: the client request with its digest, the protocol messages and the
  envelope sent between peers; and the texts that \<open>src/pbft.rs\<close> signs for each kind of
  message. bincode is not part of the repository: its two functions are the fields of
  \<open>wire_lib\<close>.
\<close>

section \<open>Identifiers and requests\<close>

type_synonym node_id = string
type_synonym view_number = u64
type_synonym sequence_number = u64
type_synonym hash = "byte list" \<comment> \<open>32 bytes\<close>

record request =
  rq_client_id :: string
  rq_timestamp :: u64
  rq_operation :: "byte list"

text \<open>
  \<open>Request::new\<close>; the clock is the system time in nanoseconds since the epoch, negative
  before it, where \<open>duration_since(..).unwrap()\<close> panics. Milliseconds are cut to 64 bits.
\<close>

definition request_new :: "int \<Rightarrow> string \<Rightarrow> byte list \<Rightarrow> (request, unit) res" where
  "request_new clock cid operation =
     (if clock < 0 then Panic
      else Ok \<lparr>rq_client_id = cid, rq_timestamp = word_of_nat (nat clock div 1000000),
               rq_operation = operation\<rparr>)"

definition request_preimage :: "request \<Rightarrow> byte list" where
  "request_preimage r = as_bytes (rq_client_id r) @ u64_to_le_bytes (rq_timestamp r) @ rq_operation r"

definition request_digest :: "('sk, 'vk) crypto_lib \<Rightarrow> request \<Rightarrow> hash" where
  "request_digest L r = lib_sha256 L (request_preimage r)"

definition compute_hash :: "('sk, 'vk) crypto_lib \<Rightarrow> byte list \<Rightarrow> hash" where
  "compute_hash L data = lib_sha256 L data"

section \<open>Protocol messages\<close>

record pre_prepare =
  pp_view :: view_number
  pp_sequence :: sequence_number
  pp_digest :: hash
  pp_request :: request
  pp_primary_id :: node_id
  pp_signature :: "byte list"

record prepare =
  pr_view :: view_number
  pr_sequence :: sequence_number
  pr_digest :: hash
  pr_replica_id :: node_id
  pr_signature :: "byte list"

record commit =
  cm_view :: view_number
  cm_sequence :: sequence_number
  cm_digest :: hash
  cm_replica_id :: node_id
  cm_signature :: "byte list"

record reply =
  rp_view :: view_number
  rp_timestamp :: u64
  rp_client_id :: string
  rp_replica_id :: node_id
  rp_result :: "byte list"
  rp_signature :: "byte list"

record view_change =
  vc_new_view :: view_number
  vc_replica_id :: node_id
  vc_last_sequence :: sequence_number
  vc_signature :: "byte list"

record new_view =
  nv_new_view :: view_number
  nv_view_changes :: "view_change list"
  nv_primary_id :: node_id
  nv_signature :: "byte list"

record checkpoint =
  cp_sequence :: sequence_number
  cp_digest :: hash
  cp_replica_id :: node_id
  cp_signature :: "byte list"

datatype consensus_message =
    Request request
  | PrePrepare pre_prepare
  | Prepare prepare
  | Commit commit
  | Reply reply
  | ViewChange view_change
  | NewView new_view
  | Checkpoint checkpoint

datatype network_message =
    Handshake node_id u16
  | HandshakeAck node_id "(node_id \<times> string) list"
  | Ping node_id u64
  | Pong node_id u64
  | Consensus consensus_message

section \<open>Serialization\<close>

record wire_lib =
  lib_serialize :: "network_message \<Rightarrow> (byte list, string) res"
  lib_deserialize :: "byte list \<Rightarrow> (network_message, string) res"

definition wire_serialize :: "wire_lib \<Rightarrow> network_message \<Rightarrow> (byte list, string) res" where
  "wire_serialize W m = lib_serialize W m"

definition wire_deserialize :: "wire_lib \<Rightarrow> byte list \<Rightarrow> (network_message, string) res" where
  "wire_deserialize W data = lib_deserialize W data"

section \<open>Signed texts\<close>

text \<open>
  The format strings of \<open>src/pbft.rs\<close>. A pre-prepare and a prepare sign the same text.
\<close>

definition prepare_sign_data :: "view_number \<Rightarrow> sequence_number \<Rightarrow> hash \<Rightarrow> string" where
  "prepare_sign_data v n d = show_u64 v @ ''-'' @ show_u64 n @ ''-'' @ debug_bytes d"

definition commit_sign_data :: "view_number \<Rightarrow> sequence_number \<Rightarrow> hash \<Rightarrow> string" where
  "commit_sign_data v n d = show_u64 v @ ''-'' @ show_u64 n @ ''-'' @ debug_bytes d @ ''-commit''"

definition checkpoint_sign_data :: "sequence_number \<Rightarrow> hash \<Rightarrow> string" where
  "checkpoint_sign_data n d = show_u64 n @ ''-'' @ debug_bytes d"

definition new_view_sign_data :: "view_number \<Rightarrow> string" where
  "new_view_sign_data v = show_u64 v @ ''-new-view''"

definition view_change_sign_data :: "view_number \<Rightarrow> string" where
  "view_change_sign_data v = show_u64 v @ ''-view-change''"

text \<open>The statements a replica can sign, and the text of each.\<close>

datatype statement =
    PrepareStatement view_number sequence_number hash
  | CommitStatement view_number sequence_number hash
  | CheckpointStatement sequence_number hash
  | NewViewStatement view_number
  | ViewChangeStatement view_number

fun statement_text :: "statement \<Rightarrow> string" where
  "statement_text (PrepareStatement v n d) = prepare_sign_data v n d"
| "statement_text (CommitStatement v n d) = commit_sign_data v n d"
| "statement_text (CheckpointStatement n d) = checkpoint_sign_data n d"
| "statement_text (NewViewStatement v) = new_view_sign_data v"
| "statement_text (ViewChangeStatement v) = view_change_sign_data v"

section \<open>Texts determine statements\<close>

lemma u64_prefix_split:
  assumes "show_u64 v @ c # as = show_u64 w @ d # bs" and "c \<notin> digits" and "d \<notin> digits"
  shows "v = w \<and> c = d \<and> as = bs"
  using split_digits [OF assms(1) show_u64_digits show_u64_digits assms(2,3)]
  by (simp add: show_u64_inject)

fun statement_tail :: "statement \<Rightarrow> u64 \<times> string" where
  "statement_tail (PrepareStatement v n d) = (v, show_u64 n @ ''-'' @ debug_bytes d)"
| "statement_tail (CommitStatement v n d) = (v, show_u64 n @ ''-'' @ debug_bytes d @ ''-commit'')"
| "statement_tail (CheckpointStatement n d) = (n, debug_bytes d)"
| "statement_tail (NewViewStatement v) = (v, ''new-view'')"
| "statement_tail (ViewChangeStatement v) = (v, ''view-change'')"

lemma statement_text_tail:
  "statement_text s = show_u64 (fst (statement_tail s)) @ CHR ''-'' # snd (statement_tail s)"
  by (cases s) (simp_all add: prepare_sign_data_def commit_sign_data_def checkpoint_sign_data_def
      new_view_sign_data_def view_change_sign_data_def)

lemma statement_text_split:
  "statement_text s = statement_text t \<Longrightarrow> statement_tail s = statement_tail t"
  unfolding statement_text_tail
  by (drule u64_prefix_split) (simp_all add: prod_eq_iff)

lemma show_u64_head: "\<exists>c r. show_u64 v = c # r \<and> c \<in> digits"
proof (cases "show_u64 v")
  case Nil
  then show ?thesis using show_nat_nonempty [of "unat v"] by (simp add: show_u64_def)
next
  case (Cons c r)
  then show ?thesis using show_u64_digits [of v] by auto
qed

lemma show_u64_append_neq:
  "c \<notin> digits \<Longrightarrow> show_u64 v @ as \<noteq> c # bs" "c \<notin> digits \<Longrightarrow> c # bs \<noteq> show_u64 v @ as"
  using show_u64_head [of v] by auto

lemma statement_tail_inject: "statement_tail s = statement_tail t \<Longrightarrow> s = t"
proof -
  have num: "show_u64 n @ CHR ''-'' # debug_bytes d @ as = show_u64 m @ CHR ''-'' # debug_bytes e @ bs
      \<longleftrightarrow> n = m \<and> d = e \<and> as = bs" for n m d e as bs
    using u64_prefix_split [of n "CHR ''-''" "debug_bytes d @ as" m "CHR ''-''" "debug_bytes e @ bs"]
    by (auto simp: debug_bytes_append_inject)
  note num0 = num [where as = "[]" and bs = "[]", simplified]
  note num1 = num [where as = "[]" and bs = "''-commit''", simplified]
  note num2 = num [where as = "''-commit''" and bs = "[]", simplified]
  have dbg: "debug_bytes d = debug_bytes e \<longleftrightarrow> d = e" for d e
    using debug_bytes_append_inject [of d "[]" e "[]"] by simp
  have head: "debug_bytes d \<noteq> show_u64 n @ as" "show_u64 n @ as \<noteq> debug_bytes d"
    "CHR ''n'' # bs \<noteq> debug_bytes d" "debug_bytes d \<noteq> CHR ''n'' # bs"
    "CHR ''v'' # bs \<noteq> debug_bytes d" "debug_bytes d \<noteq> CHR ''v'' # bs" for d n as bs
    using show_u64_append_neq [where c = "CHR ''[''" and v = n and as = as] by (simp_all add: debug_bytes_def)
  show "statement_tail s = statement_tail t \<Longrightarrow> s = t"
    by (cases s; cases t)
      (auto simp: num num0 num1 num2 dbg head show_u64_append_neq)
qed

lemma statement_text_inject [simp]: "statement_text s = statement_text t \<longleftrightarrow> s = t"
  by (auto dest: statement_text_split statement_tail_inject)

section \<open>Properties\<close>

text \<open>What each kind of message signs; requests and replies are not signed.\<close>

fun signed_text :: "consensus_message \<Rightarrow> string option" where
  "signed_text (PrePrepare pp) = Some (prepare_sign_data (pp_view pp) (pp_sequence pp) (pp_digest pp))"
| "signed_text (Prepare pr) = Some (prepare_sign_data (pr_view pr) (pr_sequence pr) (pr_digest pr))"
| "signed_text (Commit cm) = Some (commit_sign_data (cm_view cm) (cm_sequence cm) (cm_digest cm))"
| "signed_text (Checkpoint cp) = Some (checkpoint_sign_data (cp_sequence cp) (cp_digest cp))"
| "signed_text (NewView nv) = Some (new_view_sign_data (nv_new_view nv))"
| "signed_text (ViewChange vc) = Some (view_change_sign_data (vc_new_view vc))"
| "signed_text (Request _) = None"
| "signed_text (Reply _) = None"

fun signs_same :: "consensus_message \<Rightarrow> consensus_message \<Rightarrow> bool" where
  "signs_same (PrePrepare a) (PrePrepare b) \<longleftrightarrow>
     pp_view a = pp_view b \<and> pp_sequence a = pp_sequence b \<and> pp_digest a = pp_digest b"
| "signs_same (PrePrepare a) (Prepare b) \<longleftrightarrow>
     pp_view a = pr_view b \<and> pp_sequence a = pr_sequence b \<and> pp_digest a = pr_digest b"
| "signs_same (Prepare a) (PrePrepare b) \<longleftrightarrow>
     pr_view a = pp_view b \<and> pr_sequence a = pp_sequence b \<and> pr_digest a = pp_digest b"
| "signs_same (Prepare a) (Prepare b) \<longleftrightarrow>
     pr_view a = pr_view b \<and> pr_sequence a = pr_sequence b \<and> pr_digest a = pr_digest b"
| "signs_same (Commit a) (Commit b) \<longleftrightarrow>
     cm_view a = cm_view b \<and> cm_sequence a = cm_sequence b \<and> cm_digest a = cm_digest b"
| "signs_same (Checkpoint a) (Checkpoint b) \<longleftrightarrow>
     cp_sequence a = cp_sequence b \<and> cp_digest a = cp_digest b"
| "signs_same (NewView a) (NewView b) \<longleftrightarrow> nv_new_view a = nv_new_view b"
| "signs_same (ViewChange a) (ViewChange b) \<longleftrightarrow> vc_new_view a = vc_new_view b"
| "signs_same _ _ \<longleftrightarrow> False"

text \<open>
  C25. Two messages sign the same text exactly when they are of the same kind, where a pre-prepare
  and a prepare count as one kind, and agree on the view, the sequence number and the digest
  (checkpoints: number and digest; new views and view changes: the view). So a signature passes for
  no other kind, view, number or digest; but a pre-prepare passes for a prepare, and the identifier
  of the sender, the request of a pre-prepare, the \<open>last_sequence\<close> of a view change and the view
  changes of a new view are not in the text.
\<close>

theorem signed_text_determines_statement:
  "(\<exists>t. signed_text m = Some t \<and> signed_text m' = Some t) \<longleftrightarrow> signs_same m m'"
  by (cases m; cases m') (auto simp flip: statement_text.simps)

text \<open>
  C26. Between client identifiers of the same length (every node identifier has 64 characters) the
  hashed bytes determine the request.
\<close>

theorem request_preimage_determines_request:
  fixes r r' :: request
  assumes "length (rq_client_id r) = length (rq_client_id r')"
  shows "request_preimage r = request_preimage r' \<longleftrightarrow> r = r'"
proof
  assume "request_preimage r = request_preimage r'"
  with assms have "rq_client_id r = rq_client_id r' \<and> rq_timestamp r = rq_timestamp r' \<and>
      rq_operation r = rq_operation r'"
    by (simp add: request_preimage_def as_bytes_inject u64_to_le_bytes_inject)
  then show "r = r'" by simp
qed simp

theorem request_preimage_determines_request_witness:
  "\<not> request_preimage \<lparr>rq_client_id = ''a'', rq_timestamp = 1, rq_operation = [7]\<rparr>
     = request_preimage \<lparr>rq_client_id = ''b'', rq_timestamp = 1, rq_operation = [7]\<rparr>"
  using request_preimage_determines_request
    [of "\<lparr>rq_client_id = ''a'', rq_timestamp = 1, rq_operation = [7]\<rparr>"
        "\<lparr>rq_client_id = ''b'', rq_timestamp = 1, rq_operation = [7]\<rparr>"]
  by simp

end
