(* ===== verification/Hash_Map.thy ===== *)
theory Hash_Map
  imports Prelude "HOL-Library.DAList"
begin

text \<open>
  The part of \<open>std::collections::HashMap\<close> that the program uses. A map is a list of
  entries with distinct keys; the iteration order of \<open>values()\<close>, which Rust leaves open,
  is the insertion order. The locale \<open>hash_map\<close> states what the clients rely on, and the
  facts that the consensus engine uses about counting votes are proved inside it once.
\<close>

section \<open>Operations\<close>

type_synonym ('k, 'v) hmap = "('k, 'v) alist"

definition hm_new :: "('k, 'v) hmap" where
  "hm_new = DAList.empty"

definition hm_get :: "('k, 'v) hmap \<Rightarrow> 'k \<Rightarrow> 'v option" where
  "hm_get m k = DAList.lookup m k"

definition hm_contains_key :: "('k, 'v) hmap \<Rightarrow> 'k \<Rightarrow> bool" where
  "hm_contains_key m k = (hm_get m k \<noteq> None)"

definition hm_insert :: "'k \<Rightarrow> 'v \<Rightarrow> ('k, 'v) hmap \<Rightarrow> ('k, 'v) hmap" where
  "hm_insert k v m = DAList.update k v m"

definition hm_remove :: "'k \<Rightarrow> ('k, 'v) hmap \<Rightarrow> ('k, 'v) hmap" where
  "hm_remove k m = DAList.delete k m"

definition hm_retain :: "('k \<Rightarrow> bool) \<Rightarrow> ('k, 'v) hmap \<Rightarrow> ('k, 'v) hmap" where
  "hm_retain P m = DAList.filter (\<lambda>(k, _). P k) m"

definition hm_len :: "('k, 'v) hmap \<Rightarrow> nat" where
  "hm_len m = length (DAList.impl_of m)"

definition hm_values :: "('k, 'v) hmap \<Rightarrow> 'v list" where
  "hm_values m = map snd (DAList.impl_of m)"

definition hm_keys :: "('k, 'v) hmap \<Rightarrow> 'k set" where
  "hm_keys m = {k. hm_get m k \<noteq> None}"

text \<open>\<open>entry(k).or_insert_with(..)\<close>: the value stored at \<open>k\<close> and the map that holds it.\<close>

definition hm_entry_or_insert :: "'k \<Rightarrow> 'v \<Rightarrow> ('k, 'v) hmap \<Rightarrow> 'v \<times> ('k, 'v) hmap" where
  "hm_entry_or_insert k v m =
     (case hm_get m k of Some w \<Rightarrow> (w, m) | None \<Rightarrow> (v, hm_insert k v m))"

section \<open>The interface\<close>

locale hash_map =
  fixes new :: "'m"
    and get :: "'m \<Rightarrow> 'k \<Rightarrow> 'v option"
    and insert_at :: "'k \<Rightarrow> 'v \<Rightarrow> 'm \<Rightarrow> 'm"
    and retain :: "('k \<Rightarrow> bool) \<Rightarrow> 'm \<Rightarrow> 'm"
    and len :: "'m \<Rightarrow> nat"
  assumes get_new: "get new k = None"
    and get_insert: "get (insert_at k v m) k' = (if k' = k then Some v else get m k')"
    and get_retain: "get (retain P m) k = (if P k then get m k else None)"
    and len_card: "len m = card {k. get m k \<noteq> None}"
    and finite_keys: "finite {k. get m k \<noteq> None}"
begin

lemma len_new: "len new = 0"
  by (simp add: len_card get_new)

lemma keys_insert: "{k'. get (insert_at k v m) k' \<noteq> None} = insert k {k'. get m k' \<noteq> None}"
  by (auto simp: get_insert)

lemma len_insert: "len (insert_at k v m) = (if get m k = None then Suc (len m) else len m)"
  using finite_keys [of m] unfolding len_card keys_insert
  by (auto simp: card_insert_if)

lemma len_insert_mono: "len m \<le> len (insert_at k v m)"
  by (simp add: len_insert)

lemma len_insert_le: "len (insert_at k v m) \<le> Suc (len m)"
  by (simp add: len_insert)

lemma len_retain_le: "len (retain P m) \<le> len m"
  unfolding len_card
  by (rule card_mono [OF finite_keys]) (auto simp: get_retain)

lemma quorum_of_keys:
  assumes "q \<le> len m" and "\<And>k v. get m k = Some v \<Longrightarrow> k \<in> S" and "finite S"
  shows "\<exists>Q \<subseteq> S. q \<le> card Q \<and> (\<forall>k \<in> Q. \<exists>v. get m k = Some v)"
proof (intro exI conjI)
  show "{k. get m k \<noteq> None} \<subseteq> S" using assms(2) by auto
  show "q \<le> card {k. get m k \<noteq> None}" using assms(1) by (simp add: len_card)
  show "\<forall>k \<in> {k. get m k \<noteq> None}. \<exists>v. get m k = Some v" by auto
qed

end

section \<open>The operations meet the interface\<close>

lemma hm_get_new [simp]: "hm_get hm_new k = None"
  by (simp add: hm_get_def hm_new_def)

lemma hm_get_insert [simp]: "hm_get (hm_insert k v m) k' = (if k' = k then Some v else hm_get m k')"
  by (auto simp: hm_get_def hm_insert_def lookup_update)

lemma hm_get_remove [simp]: "hm_get (hm_remove k m) k' = (if k' = k then None else hm_get m k')"
  by (simp add: hm_get_def hm_remove_def)

lemma map_of_filter_keys:
  "map_of (filter (\<lambda>(k, _). P k) xs) k = (if P k then map_of xs k else None)"
  by (induction xs) auto

lemma hm_get_retain [simp]: "hm_get (hm_retain P m) k = (if P k then hm_get m k else None)"
  unfolding hm_get_def hm_retain_def by transfer (rule map_of_filter_keys)

lemma hm_keys_alt: "hm_keys m = fst ` set (DAList.impl_of m)"
  unfolding hm_keys_def hm_get_def DAList.lookup.rep_eq
  by (auto simp: map_of_eq_None_iff)

lemma finite_hm_keys [simp]: "finite (hm_keys m)"
  by (simp add: hm_keys_alt)

lemma hm_len_card: "hm_len m = card (hm_keys m)"
  unfolding hm_len_def hm_keys_alt
  using distinct_card [OF DAList.impl_of_distinct, of m] by simp

lemma set_hm_values: "set (hm_values m) = {v. \<exists>k. hm_get m k = Some v}"
proof -
  have "(\<exists>k. hm_get m k = Some v) \<longleftrightarrow> v \<in> snd ` set (DAList.impl_of m)" for v
    unfolding hm_get_def DAList.lookup.rep_eq
    by (force simp: map_of_eq_Some_iff)
  then show ?thesis by (auto simp: hm_values_def)
qed

lemma length_hm_values [simp]: "length (hm_values m) = hm_len m"
  by (simp add: hm_values_def hm_len_def)

interpretation hm: hash_map hm_new hm_get hm_insert hm_retain hm_len
proof unfold_locales
  show "hm_len m = card {k. hm_get m k \<noteq> None}" for m :: "('a, 'b) hmap"
    by (simp add: hm_len_card hm_keys_def)
  show "finite {k. hm_get m k \<noteq> None}" for m :: "('a, 'b) hmap"
    using finite_hm_keys [of m] by (simp add: hm_keys_def)
qed simp_all

lemma hm_len_new [simp]: "hm_len hm_new = 0"
  by (rule hm.len_new)

lemma hm_len_insert [simp]:
  "hm_len (hm_insert k v m) = (if hm_get m k = None then Suc (hm_len m) else hm_len m)"
  by (rule hm.len_insert)

lemma hm_keys_insert [simp]: "hm_keys (hm_insert k v m) = insert k (hm_keys m)"
  by (auto simp: hm_keys_def)

lemma hm_keys_new [simp]: "hm_keys hm_new = {}"
  by (simp add: hm_keys_def)

lemma hm_entry_or_insert_get:
  "hm_entry_or_insert k v m = (w, m') \<Longrightarrow>
     hm_get m' k' = (if k' = k then Some w else hm_get m k')"
  by (auto simp: hm_entry_or_insert_def split: option.splits)

lemma hm_insert_new_values [simp]: "hm_values (hm_insert k v hm_new) = [v]"
  by (simp add: hm_values_def hm_insert_def hm_new_def DAList.update.rep_eq DAList.empty.rep_eq)

lemma hm_values_new [simp]: "hm_values hm_new = []"
  by (simp add: hm_values_def hm_new_def DAList.empty.rep_eq)

lemma hm_values_insert_fresh:
  "hm_get m k = None \<Longrightarrow> hm_values (hm_insert k v m) = hm_values m @ [v]"
proof -
  have "k \<notin> fst ` set xs \<Longrightarrow> map snd (AList.update k v xs) = map snd xs @ [v]" for xs
    by (induction xs) auto
  then show "hm_get m k = None \<Longrightarrow> hm_values (hm_insert k v m) = hm_values m @ [v]"
    unfolding hm_values_def hm_insert_def hm_get_def DAList.update.rep_eq DAList.lookup.rep_eq
    by (simp add: map_of_eq_None_iff)
qed

end
