(* ===== verification/Replica_State.thy ===== *)
theory Replica_State
  imports Messages Hash_Map
begin

text \<open>
  The data of \<open>src/pbft.rs\<close>: errors, outgoing messages, phases, consensus instances,
  configuration, and the replica state with its accessors (lines 27-199).
\<close>

section \<open>Errors and outgoing messages\<close>

datatype pbft_error =
    InvalidMessage | InvalidSignature | InvalidView | InvalidSequence | NotPrimary | DuplicateMessage

datatype outgoing_message =
    Broadcast network_message
  | SendTo node_id network_message

text \<open>
  What a handler puts on its two channels, in order: \<open>Out\<close> is a send on \<open>outgoing_tx\<close>,
  \<open>Committed_Request\<close> one on \<open>committed_tx\<close>.
\<close>

datatype effect = Out outgoing_message | Committed_Request request

section \<open>Consensus instances\<close>

datatype phase = Idle | PrePrepared | Prepared | Committed

text \<open>The order in which an instance goes through the phases.\<close>

primrec phase_rank :: "phase \<Rightarrow> nat" where
  "phase_rank Idle = 0"
| "phase_rank PrePrepared = 1"
| "phase_rank Prepared = 2"
| "phase_rank Committed = 3"

lemma phase_rank_inject: "phase_rank p = phase_rank q \<Longrightarrow> p = q"
  by (cases p; cases q) simp_all

instantiation phase :: linorder
begin

definition less_eq_phase :: "phase \<Rightarrow> phase \<Rightarrow> bool" where
  "less_eq_phase p q \<longleftrightarrow> phase_rank p \<le> phase_rank q"

definition less_phase :: "phase \<Rightarrow> phase \<Rightarrow> bool" where
  "less_phase p q \<longleftrightarrow> phase_rank p < phase_rank q"

instance
  by standard (auto simp: less_eq_phase_def less_phase_def intro: phase_rank_inject)

end

lemma phase_bounds [simp]: "Idle \<le> p" "p \<le> Committed"
  by (cases p; simp add: less_eq_phase_def)+

lemma phase_steps [simp]: "PrePrepared \<le> Prepared" "Prepared \<le> Committed"
  by (simp_all add: less_eq_phase_def)

record consensus_instance =
  ci_sequence :: sequence_number
  ci_view :: view_number
  ci_request :: "request option"
  ci_digest :: "hash option"
  ci_phase :: phase
  ci_pre_prepare :: "pre_prepare option"
  ci_prepares :: "(node_id, prepare) hmap"
  ci_commits :: "(node_id, commit) hmap"
  ci_started_at :: instant

definition consensus_instance_new :: "instant \<Rightarrow> sequence_number \<Rightarrow> view_number \<Rightarrow> consensus_instance" where
  "consensus_instance_new now n v =
     \<lparr>ci_sequence = n, ci_view = v, ci_request = None, ci_digest = None, ci_phase = Idle,
      ci_pre_prepare = None, ci_prepares = hm_new, ci_commits = hm_new, ci_started_at = now\<rparr>"

section \<open>Configuration\<close>

record pbft_config =
  cf_n :: usize
  cf_f :: usize
  cf_view_change_timeout :: duration
  cf_checkpoint_interval :: u64

definition pbft_config_new :: "usize \<Rightarrow> pbft_config" where
  "pbft_config_new n =
     \<lparr>cf_n = n, cf_f = (n - 1) div 3, cf_view_change_timeout = from_secs 10,
      cf_checkpoint_interval = 100\<rparr>"

definition quorum :: "pbft_config \<Rightarrow> usize" where
  "quorum c = 2 * cf_f c + 1"

section \<open>Replica state\<close>

record ('sk, 'vk) pbft_state =
  st_node_id :: node_id
  st_keypair :: "('sk, 'vk) keypair"
  st_view :: view_number
  st_sequence :: sequence_number
  st_low_watermark :: sequence_number
  st_high_watermark :: sequence_number
  st_config :: pbft_config
  st_replicas :: "node_id list"
  st_log :: "(sequence_number, consensus_instance) hmap"
  st_executed :: "hash set"
  st_checkpoints :: "(sequence_number, (node_id, checkpoint) hmap) hmap"
  st_stable_checkpoint :: sequence_number
  st_view_changes :: "(view_number, (node_id, view_change) hmap) hmap"
  st_view_changing :: bool
  st_last_primary_activity :: instant

definition pbft_state_new ::
  "instant \<Rightarrow> node_id \<Rightarrow> ('sk, 'vk) keypair \<Rightarrow> node_id list \<Rightarrow> pbft_config \<Rightarrow> ('sk, 'vk) pbft_state" where
  "pbft_state_new now nid kp replicas config =
     \<lparr>st_node_id = nid, st_keypair = kp, st_view = 0, st_sequence = 0, st_low_watermark = 0,
      st_high_watermark = cf_checkpoint_interval config * 2, st_config = config,
      st_replicas = replicas, st_log = hm_new, st_executed = {}, st_checkpoints = hm_new,
      st_stable_checkpoint = 0, st_view_changes = hm_new, st_view_changing = False,
      st_last_primary_activity = now\<rparr>"

text \<open>
  The primary of a view; \<open>None\<close> is the panic of \<open>% self.replicas.len()\<close> on an empty replica
  list. The same computation occurs in \<open>handle_view_change\<close> for the proposed view.
\<close>

definition primary_of :: "node_id list \<Rightarrow> view_number \<Rightarrow> node_id option" where
  "primary_of replicas v =
     (if replicas = [] then None else Some (replicas ! (unat v mod length replicas)))"

definition primary :: "('sk, 'vk) pbft_state \<Rightarrow> node_id option" where
  "primary s = primary_of (st_replicas s) (st_view s)"

definition is_primary :: "('sk, 'vk) pbft_state \<Rightarrow> bool option" where
  "is_primary s = map_option (\<lambda>p. p = st_node_id s) (primary s)"

definition get_or_create_instance ::
  "instant \<Rightarrow> sequence_number \<Rightarrow> ('sk, 'vk) pbft_state \<Rightarrow> consensus_instance \<times> ('sk, 'vk) pbft_state" where
  "get_or_create_instance now n s =
     (case hm_entry_or_insert n (consensus_instance_new now n (st_view s)) (st_log s) of
        (inst, log') \<Rightarrow> (inst, s\<lparr>st_log := log'\<rparr>))"

definition state_sign :: "('sk, 'vk) crypto_lib \<Rightarrow> ('sk, 'vk) pbft_state \<Rightarrow> byte list \<Rightarrow> byte list" where
  "state_sign L s data = keypair_sign L (st_keypair s) data"

text \<open>Writing through the \<open>&mut ConsensusInstance\<close> that a lookup returned.\<close>

definition put_instance ::
  "sequence_number \<Rightarrow> consensus_instance \<Rightarrow> ('sk, 'vk) pbft_state \<Rightarrow> ('sk, 'vk) pbft_state" where
  "put_instance n inst s = s\<lparr>st_log := hm_insert n inst (st_log s)\<rparr>"

section \<open>Lemmas\<close>

lemma unat_quorum:
  assumes "n \<noteq> 0"
  shows "unat (cf_f (pbft_config_new n)) = (unat n - 1) div 3"
    and "unat (quorum (pbft_config_new n)) = 2 * ((unat n - 1) div 3) + 1"
proof -
  have n1: "unat (n - 1) = unat n - 1"
    using assms by (simp add: unat_minus_one)
  then show f: "unat (cf_f (pbft_config_new n)) = (unat n - 1) div 3"
    by (simp add: pbft_config_new_def unat_div)
  have "unat n < 2 ^ 64" using unsigned_less [of n] by simp
  then have "2 * ((unat n - 1) div 3) + 1 < 2 ^ 64" by simp
  with f show "unat (quorum (pbft_config_new n)) = 2 * ((unat n - 1) div 3) + 1"
    unfolding quorum_def by (simp add: unat_word_ariths)
qed

lemma quorum_positive: "0 < unat (quorum c)"
proof -
  have "odd (2 * cf_f c + 1)" by simp
  then have "2 * cf_f c + 1 \<noteq> 0" by (metis even_zero)
  then show ?thesis by (simp add: quorum_def unat_gt_0)
qed

lemma get_or_create_instance_eq:
  "get_or_create_instance now n s =
     (case hm_get (st_log s) n of
        Some inst \<Rightarrow> (inst, s)
      | None \<Rightarrow> (consensus_instance_new now n (st_view s),
                 put_instance n (consensus_instance_new now n (st_view s)) s))"
  by (simp add: get_or_create_instance_def hm_entry_or_insert_def put_instance_def split: option.splits)

lemma primary_of_in: "primary_of rs v = Some p \<Longrightarrow> p \<in> set rs"
  by (auto simp: primary_of_def split: if_splits)

lemma primary_of_Some: "rs \<noteq> [] \<Longrightarrow> \<exists>p. primary_of rs v = Some p"
  by (simp add: primary_of_def)

lemma put_instance_frame [simp]:
  "st_node_id (put_instance n i s) = st_node_id s" "st_keypair (put_instance n i s) = st_keypair s"
  "st_view (put_instance n i s) = st_view s" "st_sequence (put_instance n i s) = st_sequence s"
  "st_low_watermark (put_instance n i s) = st_low_watermark s"
  "st_high_watermark (put_instance n i s) = st_high_watermark s"
  "st_config (put_instance n i s) = st_config s" "st_replicas (put_instance n i s) = st_replicas s"
  "st_log (put_instance n i s) = hm_insert n i (st_log s)"
  "st_executed (put_instance n i s) = st_executed s"
  "st_checkpoints (put_instance n i s) = st_checkpoints s"
  "st_stable_checkpoint (put_instance n i s) = st_stable_checkpoint s"
  "st_view_changes (put_instance n i s) = st_view_changes s"
  "st_view_changing (put_instance n i s) = st_view_changing s"
  "st_last_primary_activity (put_instance n i s) = st_last_primary_activity s"
  by (simp_all add: put_instance_def)

lemma consensus_instance_new_sel [simp]:
  "ci_sequence (consensus_instance_new now n v) = n" "ci_view (consensus_instance_new now n v) = v"
  "ci_request (consensus_instance_new now n v) = None"
  "ci_digest (consensus_instance_new now n v) = None"
  "ci_phase (consensus_instance_new now n v) = Idle"
  "ci_pre_prepare (consensus_instance_new now n v) = None"
  "ci_prepares (consensus_instance_new now n v) = hm_new"
  "ci_commits (consensus_instance_new now n v) = hm_new"
  "ci_started_at (consensus_instance_new now n v) = now"
  by (simp_all add: consensus_instance_new_def)

lemma pbft_state_new_sel [simp]:
  "st_node_id (pbft_state_new now i kp rs c) = i" "st_keypair (pbft_state_new now i kp rs c) = kp"
  "st_view (pbft_state_new now i kp rs c) = 0" "st_sequence (pbft_state_new now i kp rs c) = 0"
  "st_low_watermark (pbft_state_new now i kp rs c) = 0"
  "st_high_watermark (pbft_state_new now i kp rs c) = cf_checkpoint_interval c * 2"
  "st_config (pbft_state_new now i kp rs c) = c" "st_replicas (pbft_state_new now i kp rs c) = rs"
  "st_log (pbft_state_new now i kp rs c) = hm_new" "st_executed (pbft_state_new now i kp rs c) = {}"
  "st_checkpoints (pbft_state_new now i kp rs c) = hm_new"
  "st_stable_checkpoint (pbft_state_new now i kp rs c) = 0"
  "st_view_changes (pbft_state_new now i kp rs c) = hm_new"
  "st_view_changing (pbft_state_new now i kp rs c) = False"
  by (simp_all add: pbft_state_new_def)

end
