(* ===== verification/Checkpointing.thy ===== *)
theory Checkpointing
  imports Replica_State
begin

text \<open>
  Checkpoints in \<open>src/pbft.rs\<close>: \<open>try_checkpoint\<close> broadcasts a checkpoint when the sequence
  number of an executed request is a multiple of the interval, \<open>handle_checkpoint\<close> collects
  them, advances the stable checkpoint and the water marks, and discards what lies below.
\<close>

section \<open>Operations\<close>

type_synonym ('sk, 'vk) handler_outcome = "(('sk, 'vk) pbft_state, pbft_error, effect) outcome"

text \<open>
  What a lock section of a handler ends with: the handler returns, or goes on with a value after
  the lock is released.
\<close>

datatype 'a section_result = Return "(unit, pbft_error) res" | Continue 'a

definition zero_digest :: hash where
  "zero_digest = replicate 32 0"

definition try_checkpoint_section ::
  "('sk, 'vk) crypto_lib \<Rightarrow> sequence_number \<Rightarrow> ('sk, 'vk) pbft_state \<Rightarrow> checkpoint section_result" where
  "try_checkpoint_section L n s =
     (let interval = cf_checkpoint_interval (st_config s)
      in if interval = 0 then Return Panic
         else if n mod interval \<noteq> 0 then Return (Ok ())
         else Continue \<lparr>cp_sequence = n, cp_digest = zero_digest, cp_replica_id = st_node_id s,
           cp_signature = state_sign L s (as_bytes (checkpoint_sign_data n zero_digest))\<rparr>)"

definition try_checkpoint ::
  "('sk, 'vk) crypto_lib \<Rightarrow> sequence_number \<Rightarrow> ('sk, 'vk) pbft_state \<Rightarrow> ('sk, 'vk) handler_outcome" where
  "try_checkpoint L n s =
     (case try_checkpoint_section L n s of
        Return r \<Rightarrow> (r, s, [])
      | Continue cp \<Rightarrow> (Ok (), s, [Out (Broadcast (Consensus (Checkpoint cp)))]))"

definition store_checkpoint :: "checkpoint \<Rightarrow> ('sk, 'vk) pbft_state \<Rightarrow> ('sk, 'vk) pbft_state" where
  "store_checkpoint cp s =
     (case hm_entry_or_insert (cp_sequence cp) hm_new (st_checkpoints s) of
        (entry, cps) \<Rightarrow>
          s\<lparr>st_checkpoints :=
              hm_insert (cp_sequence cp) (hm_insert (cp_replica_id cp) cp entry) cps\<rparr>)"

definition checkpoint_count :: "sequence_number \<Rightarrow> ('sk, 'vk) pbft_state \<Rightarrow> nat" where
  "checkpoint_count n s = (case hm_get (st_checkpoints s) n of Some e \<Rightarrow> hm_len e | None \<Rightarrow> 0)"

definition make_stable :: "sequence_number \<Rightarrow> ('sk, 'vk) pbft_state \<Rightarrow> ('sk, 'vk) pbft_state" where
  "make_stable n s =
     (let s1 = s\<lparr>st_stable_checkpoint := n, st_low_watermark := n,
                 st_high_watermark := n + cf_checkpoint_interval (st_config s) * 2\<rparr>
      in s1\<lparr>st_log := hm_retain (\<lambda>k. st_low_watermark s1 < k) (st_log s1),
            st_checkpoints := hm_retain (\<lambda>k. st_stable_checkpoint s1 \<le> k) (st_checkpoints s1)\<rparr>)"

definition handle_checkpoint ::
  "checkpoint \<Rightarrow> ('sk, 'vk) pbft_state \<Rightarrow> ('sk, 'vk) handler_outcome" where
  "handle_checkpoint cp s =
     (let s1 = store_checkpoint cp s
      in if unat (quorum (st_config s1)) \<le> checkpoint_count (cp_sequence cp) s1
            \<and> st_stable_checkpoint s1 < cp_sequence cp
         then (Ok (), make_stable (cp_sequence cp) s1, [])
         else (Ok (), s1, []))"

section \<open>Frame lemmas\<close>

lemma try_checkpoint_state [simp]: "fst (snd (try_checkpoint L n s)) = s"
  by (simp add: try_checkpoint_def split: section_result.splits)

lemma try_checkpoint_cases:
  assumes "try_checkpoint L n s = (r, s', es)"
  obtains (skip) "s' = s" "es = []" "r = Ok ()" "n mod cf_checkpoint_interval (st_config s) \<noteq> 0"
  | (panic) "s' = s" "es = []" "r = Panic" "cf_checkpoint_interval (st_config s) = 0"
  | (send) cp where "s' = s" "es = [Out (Broadcast (Consensus (Checkpoint cp)))]" "r = Ok ()"
      "cp_sequence cp = n" "cp_replica_id cp = st_node_id s"
      "n mod cf_checkpoint_interval (st_config s) = 0"
  using assms
  by (auto simp: try_checkpoint_def try_checkpoint_section_def Let_def split: if_splits)

lemma store_checkpoint_eq:
  "store_checkpoint cp s = s\<lparr>st_checkpoints := hm_insert (cp_sequence cp)
     (hm_insert (cp_replica_id cp) cp
       (case hm_get (st_checkpoints s) (cp_sequence cp) of Some e \<Rightarrow> e | None \<Rightarrow> hm_new))
     (st_checkpoints s)\<rparr>"
  by (auto simp: store_checkpoint_def hm_entry_or_insert_def hm_insert_def split: option.splits)

lemma store_checkpoint_frame [simp, frame_simps]:
  "st_node_id (store_checkpoint cp s) = st_node_id s"
  "st_keypair (store_checkpoint cp s) = st_keypair s"
  "st_view (store_checkpoint cp s) = st_view s"
  "st_sequence (store_checkpoint cp s) = st_sequence s"
  "st_low_watermark (store_checkpoint cp s) = st_low_watermark s"
  "st_high_watermark (store_checkpoint cp s) = st_high_watermark s"
  "st_config (store_checkpoint cp s) = st_config s"
  "st_replicas (store_checkpoint cp s) = st_replicas s"
  "st_log (store_checkpoint cp s) = st_log s"
  "st_executed (store_checkpoint cp s) = st_executed s"
  "st_stable_checkpoint (store_checkpoint cp s) = st_stable_checkpoint s"
  "st_view_changes (store_checkpoint cp s) = st_view_changes s"
  by (simp_all add: store_checkpoint_eq)

lemma make_stable_frame [simp, frame_simps]:
  "st_node_id (make_stable n s) = st_node_id s"
  "st_keypair (make_stable n s) = st_keypair s"
  "st_view (make_stable n s) = st_view s"
  "st_sequence (make_stable n s) = st_sequence s"
  "st_low_watermark (make_stable n s) = n"
  "st_high_watermark (make_stable n s) = n + cf_checkpoint_interval (st_config s) * 2"
  "st_config (make_stable n s) = st_config s"
  "st_replicas (make_stable n s) = st_replicas s"
  "st_log (make_stable n s) = hm_retain (\<lambda>k. n < k) (st_log s)"
  "st_executed (make_stable n s) = st_executed s"
  "st_stable_checkpoint (make_stable n s) = n"
  "st_view_changes (make_stable n s) = st_view_changes s"
  by (simp_all add: make_stable_def Let_def)

lemma handle_checkpoint_cases:
  assumes "handle_checkpoint cp s = (r, s', es)"
  obtains (store) "r = Ok ()" "es = []" "s' = store_checkpoint cp s"
  | (stable) "r = Ok ()" "es = []" "s' = make_stable (cp_sequence cp) (store_checkpoint cp s)"
      "st_stable_checkpoint s < cp_sequence cp"
      "unat (quorum (st_config s)) \<le> checkpoint_count (cp_sequence cp) (store_checkpoint cp s)"
  using assms by (auto simp: handle_checkpoint_def Let_def split: if_splits)

end
