(* ===== verification/Normal_Case.thy ===== *)
theory Normal_Case
  imports Checkpointing
begin

text \<open>
  The three-phase protocol of \<open>src/pbft.rs\<close> (lines 226-659): \<open>handle_request\<close>,
  \<open>handle_pre_prepare\<close>, \<open>handle_prepare\<close>, \<open>handle_commit\<close> and the two steps
  \<open>try_advance_to_prepared\<close> and \<open>try_advance_to_committed\<close>. Every block that holds the
  state lock is one \<open>_section\<close> function; a handler sends after its section has released the
  lock and goes on with the next section. \<open>now\<close> is the reading of \<open>Instant::now()\<close>.
\<close>

section \<open>Advancing an instance\<close>

definition try_committed_section ::
  "('sk, 'vk) crypto_lib \<Rightarrow> sequence_number \<Rightarrow> ('sk, 'vk) pbft_state
     \<Rightarrow> request option section_result \<times> ('sk, 'vk) pbft_state" where
  "try_committed_section L n s =
     (case hm_get (st_log s) n of
        None \<Rightarrow> (Return (Ok ()), s)
      | Some inst \<Rightarrow>
          if ci_phase inst \<noteq> Prepared then (Return (Ok ()), s)
          else if hm_len (ci_commits inst) < unat (quorum (st_config s)) then (Return (Ok ()), s)
          else
            let to_commit =
                  (case ci_request inst of
                     Some req \<Rightarrow> (let digest = request_digest L req
                                 in if digest \<notin> st_executed s then Some (req, digest) else None)
                   | None \<Rightarrow> None);
                s1 = put_instance n (inst\<lparr>ci_phase := Committed\<rparr>) s;
                s2 = (case to_commit of
                        Some (_, digest) \<Rightarrow> s1\<lparr>st_executed := insert digest (st_executed s1)\<rparr>
                      | None \<Rightarrow> s1)
            in (Continue (map_option fst to_commit), s2))"

definition try_advance_to_committed ::
  "('sk, 'vk) crypto_lib \<Rightarrow> sequence_number \<Rightarrow> ('sk, 'vk) pbft_state \<Rightarrow> ('sk, 'vk) handler_outcome" where
  "try_advance_to_committed L n s =
     (case try_committed_section L n s of
        (Return r, s') \<Rightarrow> (r, s', [])
      | (Continue None, s') \<Rightarrow> (Ok (), s', [])
      | (Continue (Some req), s') \<Rightarrow> emit [Committed_Request req] (try_checkpoint L n s'))"

definition try_prepared_section ::
  "('sk, 'vk) crypto_lib \<Rightarrow> sequence_number \<Rightarrow> ('sk, 'vk) pbft_state
     \<Rightarrow> commit section_result \<times> ('sk, 'vk) pbft_state" where
  "try_prepared_section L n s =
     (case hm_get (st_log s) n of
        None \<Rightarrow> (Return (Ok ()), s)
      | Some inst \<Rightarrow>
          if ci_pre_prepare inst = None then (Return (Ok ()), s)
          else if ci_phase inst \<noteq> PrePrepared then (Return (Ok ()), s)
          else if hm_len (ci_prepares inst) < unat (quorum (st_config s)) then (Return (Ok ()), s)
          else (case ci_digest inst of
              None \<Rightarrow> (Return Panic, s)
            | Some digest \<Rightarrow>
                let v = ci_view inst;
                    commit = \<lparr>cm_view = v, cm_sequence = n, cm_digest = digest,
                      cm_replica_id = st_node_id s,
                      cm_signature = state_sign L s (as_bytes (commit_sign_data v n digest))\<rparr>
                in (Continue commit,
                    put_instance n
                      (inst\<lparr>ci_phase := Prepared,
                            ci_commits := hm_insert (st_node_id s) commit (ci_commits inst)\<rparr>) s)))"

definition try_advance_to_prepared ::
  "('sk, 'vk) crypto_lib \<Rightarrow> sequence_number \<Rightarrow> ('sk, 'vk) pbft_state \<Rightarrow> ('sk, 'vk) handler_outcome" where
  "try_advance_to_prepared L n s =
     (case try_prepared_section L n s of
        (Return r, s') \<Rightarrow> (r, s', [])
      | (Continue commit, s') \<Rightarrow>
          emit [Out (Broadcast (Consensus (Commit commit)))] (try_advance_to_committed L n s'))"

section \<open>Requests\<close>

datatype request_step =
    Finished "(unit, pbft_error) res"
  | ForwardTo node_id
  | Proposed pre_prepare prepare

definition handle_request_section ::
  "('sk, 'vk) crypto_lib \<Rightarrow> instant \<Rightarrow> request \<Rightarrow> ('sk, 'vk) pbft_state
     \<Rightarrow> request_step \<times> ('sk, 'vk) pbft_state" where
  "handle_request_section L now req s =
     (case primary s of
        None \<Rightarrow> (Finished Panic, s)
      | Some p \<Rightarrow>
          if p \<noteq> st_node_id s then (ForwardTo p, s)
          else
            let digest = request_digest L req
            in if digest \<in> st_executed s then (Finished (Ok ()), s)
               else
                 let s1 = s\<lparr>st_sequence := st_sequence s + 1\<rparr>;
                     n = st_sequence s1;
                     v = st_view s1
                 in if st_high_watermark s1 < n then (Finished (Err InvalidSequence), s1)
                    else
                      let pp = \<lparr>pp_view = v, pp_sequence = n, pp_digest = digest, pp_request = req,
                            pp_primary_id = st_node_id s1,
                            pp_signature = state_sign L s1 (as_bytes (prepare_sign_data v n digest))\<rparr>;
                          pr = \<lparr>pr_view = v, pr_sequence = n, pr_digest = digest,
                            pr_replica_id = st_node_id s1,
                            pr_signature = state_sign L s1 (as_bytes (prepare_sign_data v n digest))\<rparr>
                      in (case get_or_create_instance now n s1 of
                            (inst, s2) \<Rightarrow>
                              (Proposed pp pr,
                               put_instance n
                                 (inst\<lparr>ci_request := Some req, ci_digest := Some digest,
                                       ci_pre_prepare := Some pp, ci_phase := PrePrepared,
                                       ci_prepares := hm_insert (st_node_id s1) pr (ci_prepares inst)\<rparr>)
                                 s2)))"

definition handle_request ::
  "('sk, 'vk) crypto_lib \<Rightarrow> instant \<Rightarrow> request \<Rightarrow> ('sk, 'vk) pbft_state \<Rightarrow> ('sk, 'vk) handler_outcome" where
  "handle_request L now req s =
     (case handle_request_section L now req s of
        (Finished r, s') \<Rightarrow> (r, s', [])
      | (ForwardTo p, s') \<Rightarrow> (Ok (), s', [Out (SendTo p (Consensus (Request req)))])
      | (Proposed pp pr, s') \<Rightarrow>
          emit [Out (Broadcast (Consensus (PrePrepare pp))), Out (Broadcast (Consensus (Prepare pr)))]
            (try_advance_to_prepared L (pp_sequence pp) s'))"

section \<open>Pre-prepares\<close>

definition handle_pre_prepare_section ::
  "('sk, 'vk) crypto_lib \<Rightarrow> instant \<Rightarrow> pre_prepare \<Rightarrow> ('sk, 'vk) pbft_state
     \<Rightarrow> prepare section_result \<times> ('sk, 'vk) pbft_state" where
  "handle_pre_prepare_section L now pp s =
     (if pp_view pp \<noteq> st_view s then (Return (Err InvalidView), s)
      else case primary s of
        None \<Rightarrow> (Return Panic, s)
      | Some p \<Rightarrow>
          if pp_primary_id pp \<noteq> p then (Return (Err NotPrimary), s)
          else if pp_sequence pp \<le> st_low_watermark s \<or> st_high_watermark s < pp_sequence pp
          then (Return (Err InvalidSequence), s)
          else if \<not> verify_node_signature L (pp_primary_id pp)
                   (as_bytes (prepare_sign_data (pp_view pp) (pp_sequence pp) (pp_digest pp)))
                   (pp_signature pp)
          then (Return (Err InvalidSignature), s)
          else
            let present = (case hm_get (st_log s) (pp_sequence pp) of
                             None \<Rightarrow> None
                           | Some inst \<Rightarrow> if ci_pre_prepare inst \<noteq> None then Some inst else None)
            in case present of
                 Some inst \<Rightarrow>
                   if ci_digest inst \<noteq> Some (pp_digest pp) then (Return (Err InvalidMessage), s)
                   else (Return (Ok ()), s)
               | None \<Rightarrow>
                   if request_digest L (pp_request pp) \<noteq> pp_digest pp
                   then (Return (Err InvalidMessage), s)
                   else
                     let n = pp_sequence pp; v = pp_view pp; digest = pp_digest pp;
                         pr = \<lparr>pr_view = v, pr_sequence = n, pr_digest = digest,
                           pr_replica_id = st_node_id s,
                           pr_signature = state_sign L s (as_bytes (prepare_sign_data v n digest))\<rparr>
                     in (case get_or_create_instance now n s of
                           (inst, s1) \<Rightarrow>
                             let s2 = put_instance n
                                   (inst\<lparr>ci_request := Some (pp_request pp), ci_digest := Some digest,
                                         ci_pre_prepare := Some pp, ci_phase := PrePrepared,
                                         ci_prepares := hm_insert (st_node_id s) pr (ci_prepares inst)\<rparr>)
                                   s1
                             in (Continue pr, s2\<lparr>st_last_primary_activity := now\<rparr>)))"

definition handle_pre_prepare ::
  "('sk, 'vk) crypto_lib \<Rightarrow> instant \<Rightarrow> pre_prepare \<Rightarrow> ('sk, 'vk) pbft_state \<Rightarrow> ('sk, 'vk) handler_outcome" where
  "handle_pre_prepare L now pp s =
     (case handle_pre_prepare_section L now pp s of
        (Return r, s') \<Rightarrow> (r, s', [])
      | (Continue pr, s') \<Rightarrow>
          emit [Out (Broadcast (Consensus (Prepare pr)))] (try_advance_to_prepared L (pr_sequence pr) s'))"

section \<open>Prepares and commits\<close>

definition handle_prepare_section ::
  "('sk, 'vk) crypto_lib \<Rightarrow> instant \<Rightarrow> prepare \<Rightarrow> ('sk, 'vk) pbft_state
     \<Rightarrow> sequence_number section_result \<times> ('sk, 'vk) pbft_state" where
  "handle_prepare_section L now pr s =
     (if pr_view pr \<noteq> st_view s then (Return (Err InvalidView), s)
      else if pr_sequence pr \<le> st_low_watermark s \<or> st_high_watermark s < pr_sequence pr
      then (Return (Err InvalidSequence), s)
      else if \<not> verify_node_signature L (pr_replica_id pr)
               (as_bytes (prepare_sign_data (pr_view pr) (pr_sequence pr) (pr_digest pr)))
               (pr_signature pr)
      then (Return (Err InvalidSignature), s)
      else
        let n = pr_sequence pr
        in case get_or_create_instance now n s of
             (inst, s1) \<Rightarrow>
               if (case ci_pre_prepare inst of Some pp \<Rightarrow> pp_digest pp \<noteq> pr_digest pr | None \<Rightarrow> False)
               then (Return (Err InvalidMessage), s1)
               else if hm_contains_key (ci_prepares inst) (pr_replica_id pr)
               then (Return (Ok ()), s1)
               else (Continue n,
                     put_instance n
                       (inst\<lparr>ci_prepares := hm_insert (pr_replica_id pr) pr (ci_prepares inst)\<rparr>) s1))"

definition handle_prepare ::
  "('sk, 'vk) crypto_lib \<Rightarrow> instant \<Rightarrow> prepare \<Rightarrow> ('sk, 'vk) pbft_state \<Rightarrow> ('sk, 'vk) handler_outcome" where
  "handle_prepare L now pr s =
     (case handle_prepare_section L now pr s of
        (Return r, s') \<Rightarrow> (r, s', [])
      | (Continue n, s') \<Rightarrow> try_advance_to_prepared L n s')"

definition handle_commit_section ::
  "('sk, 'vk) crypto_lib \<Rightarrow> instant \<Rightarrow> commit \<Rightarrow> ('sk, 'vk) pbft_state
     \<Rightarrow> sequence_number section_result \<times> ('sk, 'vk) pbft_state" where
  "handle_commit_section L now cm s =
     (if cm_view cm \<noteq> st_view s then (Return (Err InvalidView), s)
      else if cm_sequence cm \<le> st_low_watermark s \<or> st_high_watermark s < cm_sequence cm
      then (Return (Err InvalidSequence), s)
      else if \<not> verify_node_signature L (cm_replica_id cm)
               (as_bytes (commit_sign_data (cm_view cm) (cm_sequence cm) (cm_digest cm)))
               (cm_signature cm)
      then (Return (Err InvalidSignature), s)
      else
        let n = cm_sequence cm
        in case get_or_create_instance now n s of
             (inst, s1) \<Rightarrow>
               if (case ci_digest inst of Some d \<Rightarrow> cm_digest cm \<noteq> d | None \<Rightarrow> False)
               then (Return (Err InvalidMessage), s1)
               else if hm_contains_key (ci_commits inst) (cm_replica_id cm)
               then (Return (Ok ()), s1)
               else (Continue n,
                     put_instance n
                       (inst\<lparr>ci_commits := hm_insert (cm_replica_id cm) cm (ci_commits inst)\<rparr>) s1))"

definition handle_commit ::
  "('sk, 'vk) crypto_lib \<Rightarrow> instant \<Rightarrow> commit \<Rightarrow> ('sk, 'vk) pbft_state \<Rightarrow> ('sk, 'vk) handler_outcome" where
  "handle_commit L now cm s =
     (case handle_commit_section L now cm s of
        (Return r, s') \<Rightarrow> (r, s', [])
      | (Continue n, s') \<Rightarrow> try_advance_to_committed L n s')"

end
