(* ===== verification/View_Changes.thy ===== *)
theory View_Changes
  imports Checkpointing
begin

text \<open>
  View changes in \<open>src/pbft.rs\<close> (lines 723-865): collecting \<open>ViewChange\<close> messages and
  announcing the new view as its primary, entering a view on \<open>NewView\<close>, starting a view change,
  and the timeout check.
\<close>

section \<open>Operations\<close>

definition store_view_change :: "view_change \<Rightarrow> ('sk, 'vk) pbft_state \<Rightarrow> ('sk, 'vk) pbft_state" where
  "store_view_change vc s =
     (case hm_entry_or_insert (vc_new_view vc) hm_new (st_view_changes s) of
        (entry, vcs) \<Rightarrow>
          s\<lparr>st_view_changes :=
              hm_insert (vc_new_view vc) (hm_insert (vc_replica_id vc) vc entry) vcs\<rparr>)"

definition view_change_count :: "view_number \<Rightarrow> ('sk, 'vk) pbft_state \<Rightarrow> nat" where
  "view_change_count v s = (case hm_get (st_view_changes s) v of Some e \<Rightarrow> hm_len e | None \<Rightarrow> 0)"

definition handle_view_change_section ::
  "('sk, 'vk) crypto_lib \<Rightarrow> view_change \<Rightarrow> ('sk, 'vk) pbft_state
     \<Rightarrow> new_view option section_result \<times> ('sk, 'vk) pbft_state" where
  "handle_view_change_section L vc s =
     (if vc_new_view vc \<le> st_view s then (Return (Ok ()), s)
      else
        let v = vc_new_view vc;
            s1 = store_view_change vc s
        in if unat (quorum (st_config s1)) \<le> view_change_count v s1 then
             (case primary_of (st_replicas s1) v of
                None \<Rightarrow> (Return Panic, s1)
              | Some p \<Rightarrow>
                  if p = st_node_id s1 then
                    (Continue (Some
                       \<lparr>nv_new_view = v,
                        nv_view_changes =
                          (case hm_get (st_view_changes s1) v of Some e \<Rightarrow> hm_values e | None \<Rightarrow> []),
                        nv_primary_id = st_node_id s1,
                        nv_signature = state_sign L s1 (as_bytes (new_view_sign_data v))\<rparr>), s1)
                  else (Continue None, s1))
           else (Continue None, s1))"

definition handle_view_change ::
  "('sk, 'vk) crypto_lib \<Rightarrow> view_change \<Rightarrow> ('sk, 'vk) pbft_state \<Rightarrow> ('sk, 'vk) handler_outcome" where
  "handle_view_change L vc s =
     (case handle_view_change_section L vc s of
        (Return r, s') \<Rightarrow> (r, s', [])
      | (Continue (Some nv), s') \<Rightarrow> (Ok (), s', [Out (Broadcast (Consensus (NewView nv)))])
      | (Continue None, s') \<Rightarrow> (Ok (), s', []))"

definition handle_new_view ::
  "instant \<Rightarrow> new_view \<Rightarrow> ('sk, 'vk) pbft_state \<Rightarrow> ('sk, 'vk) handler_outcome" where
  "handle_new_view now nv s =
     (if nv_new_view nv \<le> st_view s then (Ok (), s, [])
      else
        let s1 = s\<lparr>st_view := nv_new_view nv, st_view_changing := False,
                   st_last_primary_activity := now\<rparr>
        in (Ok (), s1\<lparr>st_view_changes := hm_retain (\<lambda>v. st_view s1 < v) (st_view_changes s1)\<rparr>, []))"

definition start_view_change ::
  "('sk, 'vk) crypto_lib \<Rightarrow> ('sk, 'vk) pbft_state \<Rightarrow> ('sk, 'vk) handler_outcome" where
  "start_view_change L s =
     (if st_view_changing s then (Ok (), s, [])
      else
        let v = st_view s + 1;
            s1 = s\<lparr>st_view_changing := True\<rparr>;
            vc = \<lparr>vc_new_view = v, vc_replica_id = st_node_id s1, vc_last_sequence = st_sequence s1,
                  vc_signature = state_sign L s1 (as_bytes (view_change_sign_data v))\<rparr>
        in (Ok (), store_view_change vc s1, [Out (Broadcast (Consensus (ViewChange vc)))]))"

text \<open>\<open>last_primary_activity.elapsed()\<close> is zero when the clock reads earlier.\<close>

definition check_timeout ::
  "('sk, 'vk) crypto_lib \<Rightarrow> instant \<Rightarrow> ('sk, 'vk) pbft_state \<Rightarrow> ('sk, 'vk) handler_outcome" where
  "check_timeout L now s =
     (if st_view_changing s then (Ok (), s, [])
      else case is_primary s of
        None \<Rightarrow> (Panic, s, [])
      | Some True \<Rightarrow> (Ok (), s, [])
      | Some False \<Rightarrow>
          if cf_view_change_timeout (st_config s) < now - st_last_primary_activity s
          then start_view_change L s
          else (Ok (), s, []))"

section \<open>Frame lemmas\<close>

lemma store_view_change_eq:
  "store_view_change vc s = s\<lparr>st_view_changes := hm_insert (vc_new_view vc)
     (hm_insert (vc_replica_id vc) vc
       (case hm_get (st_view_changes s) (vc_new_view vc) of Some e \<Rightarrow> e | None \<Rightarrow> hm_new))
     (st_view_changes s)\<rparr>"
  by (auto simp: store_view_change_def hm_entry_or_insert_def hm_insert_def split: option.splits)

lemma store_view_change_frame [simp, frame_simps]:
  "st_node_id (store_view_change vc s) = st_node_id s"
  "st_keypair (store_view_change vc s) = st_keypair s"
  "st_view (store_view_change vc s) = st_view s"
  "st_sequence (store_view_change vc s) = st_sequence s"
  "st_low_watermark (store_view_change vc s) = st_low_watermark s"
  "st_high_watermark (store_view_change vc s) = st_high_watermark s"
  "st_config (store_view_change vc s) = st_config s"
  "st_replicas (store_view_change vc s) = st_replicas s"
  "st_log (store_view_change vc s) = st_log s"
  "st_executed (store_view_change vc s) = st_executed s"
  "st_checkpoints (store_view_change vc s) = st_checkpoints s"
  "st_stable_checkpoint (store_view_change vc s) = st_stable_checkpoint s"
  by (simp_all add: store_view_change_eq)

lemma handle_view_change_cases:
  assumes "handle_view_change L vc s = (r, s', es)"
  obtains (stale) "r = Ok ()" "es = []" "s' = s" "vc_new_view vc \<le> st_view s"
  | (panic) "r = Panic" "es = []" "s' = store_view_change vc s" "st_replicas s = []"
  | (store) "r = Ok ()" "es = []" "s' = store_view_change vc s" "st_view s < vc_new_view vc"
  | (announce) nv where "r = Ok ()" "es = [Out (Broadcast (Consensus (NewView nv)))]"
      "s' = store_view_change vc s" "st_view s < vc_new_view vc"
      "nv_new_view nv = vc_new_view vc" "nv_primary_id nv = st_node_id s"
      "primary_of (st_replicas s) (vc_new_view vc) = Some (st_node_id s)"
      "unat (quorum (st_config s)) \<le> view_change_count (vc_new_view vc) (store_view_change vc s)"
      "nv_signature nv = state_sign L s (as_bytes (new_view_sign_data (vc_new_view vc)))"
proof (cases "vc_new_view vc \<le> st_view s")
  case True
  with assms show ?thesis
    by (intro stale) (simp_all add: handle_view_change_def handle_view_change_section_def)
next
  case False
  define s1 where "s1 = store_view_change vc s"
  note d = handle_view_change_def handle_view_change_section_def Let_def s1_def [symmetric]
  show ?thesis
  proof (cases "unat (quorum (st_config s)) \<le> view_change_count (vc_new_view vc) s1")
    case few: False
    with False assms show ?thesis by (intro store) (simp_all add: d, simp_all add: s1_def)
  next
    case enough: True
    show ?thesis
    proof (cases "primary_of (st_replicas s) (vc_new_view vc)")
      case None
      then have "st_replicas s = []" by (auto simp: primary_of_def split: if_splits)
      with None False enough assms show ?thesis
        by (intro panic) (simp_all add: d, simp_all add: s1_def)
    next
      case (Some p)
      show ?thesis
      proof (cases "p = st_node_id s")
        case other: False
        with Some False enough assms show ?thesis
          by (intro store) (simp_all add: d, simp_all add: s1_def)
      next
        case me: True
        define nv where "nv = \<lparr>nv_new_view = vc_new_view vc,
             nv_view_changes = (case hm_get (st_view_changes s1) (vc_new_view vc) of
                Some e \<Rightarrow> hm_values e | None \<Rightarrow> []),
             nv_primary_id = st_node_id s,
             nv_signature = state_sign L s1 (as_bytes (new_view_sign_data (vc_new_view vc)))\<rparr>"
        have "handle_view_change L vc s = (Ok (), s1, [Out (Broadcast (Consensus (NewView nv)))])"
          using Some False enough me by (simp add: d nv_def, simp add: s1_def)
        with assms have out: "r = Ok ()" "es = [Out (Broadcast (Consensus (NewView nv)))]" "s' = s1"
          by simp_all
        show ?thesis
          by (rule announce [OF out(1,2)])
            (use out Some me False enough in \<open>simp_all add: s1_def nv_def state_sign_def\<close>)
      qed
    qed
  qed
qed

lemma handle_new_view_cases:
  assumes "handle_new_view now nv s = (r, s', es)"
  obtains (stale) "r = Ok ()" "es = []" "s' = s" "nv_new_view nv \<le> st_view s"
  | (enter) "r = Ok ()" "es = []" "st_view s < nv_new_view nv"
      "s' = s\<lparr>st_view := nv_new_view nv, st_view_changing := False, st_last_primary_activity := now,
         st_view_changes := hm_retain (\<lambda>v. nv_new_view nv < v) (st_view_changes s)\<rparr>"
  using assms by (auto simp: handle_new_view_def Let_def not_le split: if_splits)

lemma start_view_change_cases:
  assumes "start_view_change L s = (r, s', es)"
  obtains (pending) "r = Ok ()" "es = []" "s' = s" "st_view_changing s"
  | (start) vc where "r = Ok ()" "es = [Out (Broadcast (Consensus (ViewChange vc)))]"
      "s' = store_view_change vc (s\<lparr>st_view_changing := True\<rparr>)" "\<not> st_view_changing s"
      "vc_new_view vc = st_view s + 1" "vc_replica_id vc = st_node_id s"
      "vc_signature vc = state_sign L s (as_bytes (view_change_sign_data (st_view s + 1)))"
  using assms by (auto simp: start_view_change_def Let_def state_sign_def split: if_splits)

lemma check_timeout_cases:
  assumes "check_timeout L now s = (r, s', es)"
  obtains (idle) "r = Ok ()" "es = []" "s' = s"
  | (panic) "r = Panic" "es = []" "s' = s" "st_replicas s = []"
  | (fire) "start_view_change L s = (r, s', es)" "is_primary s = Some False"
      "cf_view_change_timeout (st_config s) < now - st_last_primary_activity s"
proof (cases "is_primary s")
  case None
  then have "st_replicas s = []" by (auto simp: is_primary_def primary_def primary_of_def split: if_splits)
  with None assms show ?thesis
    by (cases "st_view_changing s") (auto simp: check_timeout_def intro: idle panic)
next
  case (Some b)
  with assms show ?thesis
    by (cases b) (auto simp: check_timeout_def intro: idle fire split: if_splits)
qed

end
