(* ===== verification/Engine.thy ===== *)
theory Engine
  imports Normal_Case View_Changes
begin

text \<open>
  The dispatcher \<open>process_message\<close> of \<open>src/pbft.rs\<close> (lines 867-879) and the runs of one
  replica: a list of events, each processed to its end before the next, which is how the message
  loop of \<open>src/main.rs\<close> drives the engine. A panic ends the run.
\<close>

definition process_message ::
  "('sk, 'vk) crypto_lib \<Rightarrow> instant \<Rightarrow> consensus_message \<Rightarrow> ('sk, 'vk) pbft_state
     \<Rightarrow> ('sk, 'vk) handler_outcome" where
  "process_message L now msg s =
     (case msg of
        Request req \<Rightarrow> handle_request L now req s
      | PrePrepare pp \<Rightarrow> handle_pre_prepare L now pp s
      | Prepare pr \<Rightarrow> handle_prepare L now pr s
      | Commit cm \<Rightarrow> handle_commit L now cm s
      | Reply _ \<Rightarrow> (Ok (), s, [])
      | ViewChange vc \<Rightarrow> handle_view_change L vc s
      | NewView nv \<Rightarrow> handle_new_view now nv s
      | Checkpoint cp \<Rightarrow> handle_checkpoint cp s)"

datatype event = Receive instant consensus_message | Timer instant | Start_View_Change

definition replica_step ::
  "('sk, 'vk) crypto_lib \<Rightarrow> event \<Rightarrow> ('sk, 'vk) pbft_state \<Rightarrow> ('sk, 'vk) handler_outcome" where
  "replica_step L ev s =
     (case ev of
        Receive now msg \<Rightarrow> process_message L now msg s
      | Timer now \<Rightarrow> check_timeout L now s
      | Start_View_Change \<Rightarrow> start_view_change L s)"

fun replica_run ::
  "('sk, 'vk) crypto_lib \<Rightarrow> event list \<Rightarrow> ('sk, 'vk) pbft_state
     \<Rightarrow> bool \<times> ('sk, 'vk) pbft_state \<times> effect list" where
  "replica_run L [] s = (True, s, [])"
| "replica_run L (ev # evs) s =
     (case replica_step L ev s of
        (Panic, s', es) \<Rightarrow> (False, s', es)
      | (_, s', es) \<Rightarrow> (case replica_run L evs s' of (alive, s'', es') \<Rightarrow> (alive, s'', es @ es')))"

end
