(* ===== verification/Atomic_Updates.thy ===== *)
theory Atomic_Updates
  imports Engine
begin

text \<open>
  The atomic updates of a replica. Each rule is what one lock section of a handler does to the
  state in one of its branches, with the guards of that branch, and the messages it leads to.
  \<open>M\<close> is the set of messages that have been delivered. Every handler is shown to be a
  sequence of updates, so an invariant of the replica needs to be
  checked for the updates only; since a lock section is the unit of interleaving, such an
  invariant holds for every interleaving of handlers as well.
\<close>

section \<open>The updates\<close>

definition instance_at :: "instant \<Rightarrow> sequence_number \<Rightarrow> ('sk, 'vk) pbft_state \<Rightarrow> consensus_instance" where
  "instance_at now n s =
     (case hm_get (st_log s) n of Some inst \<Rightarrow> inst | None \<Rightarrow> consensus_instance_new now n (st_view s))"

definition in_window :: "sequence_number \<Rightarrow> ('sk, 'vk) pbft_state \<Rightarrow> bool" where
  "in_window n s \<longleftrightarrow> st_low_watermark s < n \<and> n \<le> st_high_watermark s"

definition own_prepare ::
  "('sk, 'vk) crypto_lib \<Rightarrow> sequence_number \<Rightarrow> hash \<Rightarrow> ('sk, 'vk) pbft_state \<Rightarrow> prepare" where
  "own_prepare L n d s =
     \<lparr>pr_view = st_view s, pr_sequence = n, pr_digest = d, pr_replica_id = st_node_id s,
      pr_signature = state_sign L s (as_bytes (prepare_sign_data (st_view s) n d))\<rparr>"

definition own_pre_prepare ::
  "('sk, 'vk) crypto_lib \<Rightarrow> sequence_number \<Rightarrow> request \<Rightarrow> ('sk, 'vk) pbft_state \<Rightarrow> pre_prepare" where
  "own_pre_prepare L n req s =
     \<lparr>pp_view = st_view s, pp_sequence = n, pp_digest = request_digest L req, pp_request = req,
      pp_primary_id = st_node_id s,
      pp_signature = state_sign L s (as_bytes (prepare_sign_data (st_view s) n (request_digest L req)))\<rparr>"

definition own_commit ::
  "('sk, 'vk) crypto_lib \<Rightarrow> view_number \<Rightarrow> sequence_number \<Rightarrow> hash \<Rightarrow> ('sk, 'vk) pbft_state \<Rightarrow> commit" where
  "own_commit L v n d s =
     \<lparr>cm_view = v, cm_sequence = n, cm_digest = d, cm_replica_id = st_node_id s,
      cm_signature = state_sign L s (as_bytes (commit_sign_data v n d))\<rparr>"

definition with_proposal :: "pre_prepare \<Rightarrow> prepare \<Rightarrow> consensus_instance \<Rightarrow> consensus_instance" where
  "with_proposal pp pr inst =
     inst\<lparr>ci_request := Some (pp_request pp), ci_digest := Some (pp_digest pp),
          ci_pre_prepare := Some pp, ci_phase := PrePrepared,
          ci_prepares := hm_insert (pr_replica_id pr) pr (ci_prepares inst)\<rparr>"

inductive atomic ::
  "('sk, 'vk) crypto_lib \<Rightarrow> consensus_message set \<Rightarrow> ('sk, 'vk) pbft_state \<Rightarrow> effect list \<Rightarrow> ('sk, 'vk) pbft_state \<Rightarrow> bool"
  for L M where
  forward:
    "Request req \<in> M \<Longrightarrow>
     primary s = Some p \<Longrightarrow> p \<noteq> st_node_id s \<Longrightarrow>
     atomic L M s [Out (SendTo p (Consensus (Request req)))] s"
| exhausted:
    "Request req \<in> M \<Longrightarrow>
     primary s = Some (st_node_id s) \<Longrightarrow> st_high_watermark s < st_sequence s + 1 \<Longrightarrow>
     atomic L M s [] (s\<lparr>st_sequence := st_sequence s + 1\<rparr>)"
| propose:
    "Request req \<in> M \<Longrightarrow>
     primary s = Some (st_node_id s) \<Longrightarrow> request_digest L req \<notin> st_executed s \<Longrightarrow>
     n = st_sequence s + 1 \<Longrightarrow> n \<le> st_high_watermark s \<Longrightarrow>
     pp = own_pre_prepare L n req s \<Longrightarrow> pr = own_prepare L n (request_digest L req) s \<Longrightarrow>
     atomic L M s
       [Out (Broadcast (Consensus (PrePrepare pp))), Out (Broadcast (Consensus (Prepare pr)))]
       (put_instance n (with_proposal pp pr (instance_at now n s)) (s\<lparr>st_sequence := n\<rparr>))"
| accept:
    "PrePrepare pp \<in> M \<Longrightarrow>
     pp_view pp = st_view s \<Longrightarrow> primary s = Some (pp_primary_id pp) \<Longrightarrow> n = pp_sequence pp \<Longrightarrow>
     in_window n s \<Longrightarrow>
     verify_node_signature L (pp_primary_id pp)
       (as_bytes (prepare_sign_data (pp_view pp) n (pp_digest pp))) (pp_signature pp) \<Longrightarrow>
     ci_pre_prepare (instance_at now n s) = None \<Longrightarrow>
     request_digest L (pp_request pp) = pp_digest pp \<Longrightarrow>
     pr = own_prepare L n (pp_digest pp) s \<Longrightarrow>
     atomic L M s [Out (Broadcast (Consensus (Prepare pr)))]
       ((put_instance n (with_proposal pp pr (instance_at now n s)) s)\<lparr>st_last_primary_activity := now\<rparr>)"
| add_prepare:
    "Prepare pr \<in> M \<Longrightarrow>
     pr_view pr = st_view s \<Longrightarrow> n = pr_sequence pr \<Longrightarrow> in_window n s \<Longrightarrow>
     verify_node_signature L (pr_replica_id pr)
       (as_bytes (prepare_sign_data (pr_view pr) n (pr_digest pr))) (pr_signature pr) \<Longrightarrow>
     inst = instance_at now n s \<Longrightarrow>
     (\<And>pp. ci_pre_prepare inst = Some pp \<Longrightarrow> pp_digest pp = pr_digest pr) \<Longrightarrow>
     hm_get (ci_prepares inst) (pr_replica_id pr) = None \<Longrightarrow>
     atomic L M s []
       (put_instance n (inst\<lparr>ci_prepares := hm_insert (pr_replica_id pr) pr (ci_prepares inst)\<rparr>) s)"
| add_commit:
    "Commit cm \<in> M \<Longrightarrow>
     cm_view cm = st_view s \<Longrightarrow> n = cm_sequence cm \<Longrightarrow> in_window n s \<Longrightarrow>
     verify_node_signature L (cm_replica_id cm)
       (as_bytes (commit_sign_data (cm_view cm) n (cm_digest cm))) (cm_signature cm) \<Longrightarrow>
     inst = instance_at now n s \<Longrightarrow>
     (\<And>d. ci_digest inst = Some d \<Longrightarrow> d = cm_digest cm) \<Longrightarrow>
     hm_get (ci_commits inst) (cm_replica_id cm) = None \<Longrightarrow>
     atomic L M s []
       (put_instance n (inst\<lparr>ci_commits := hm_insert (cm_replica_id cm) cm (ci_commits inst)\<rparr>) s)"
| become_prepared:
    "hm_get (st_log s) n = Some inst \<Longrightarrow> ci_pre_prepare inst \<noteq> None \<Longrightarrow> ci_phase inst = PrePrepared \<Longrightarrow>
     unat (quorum (st_config s)) \<le> hm_len (ci_prepares inst) \<Longrightarrow> ci_digest inst = Some d \<Longrightarrow>
     cm = own_commit L (ci_view inst) n d s \<Longrightarrow>
     atomic L M s [Out (Broadcast (Consensus (Commit cm)))]
       (put_instance n
          (inst\<lparr>ci_phase := Prepared, ci_commits := hm_insert (st_node_id s) cm (ci_commits inst)\<rparr>) s)"
| execute:
    "hm_get (st_log s) n = Some inst \<Longrightarrow> ci_phase inst = Prepared \<Longrightarrow>
     unat (quorum (st_config s)) \<le> hm_len (ci_commits inst) \<Longrightarrow>
     ci_request inst = Some req \<Longrightarrow> request_digest L req \<notin> st_executed s \<Longrightarrow>
     atomic L M s [Committed_Request req]
       ((put_instance n (inst\<lparr>ci_phase := Committed\<rparr>) s)
          \<lparr>st_executed := insert (request_digest L req) (st_executed s)\<rparr>)"
| finish:
    "hm_get (st_log s) n = Some inst \<Longrightarrow> ci_phase inst = Prepared \<Longrightarrow>
     unat (quorum (st_config s)) \<le> hm_len (ci_commits inst) \<Longrightarrow>
     (\<And>req. ci_request inst = Some req \<Longrightarrow> request_digest L req \<in> st_executed s) \<Longrightarrow>
     atomic L M s [] (put_instance n (inst\<lparr>ci_phase := Committed\<rparr>) s)"
| send_checkpoint:
    "n mod cf_checkpoint_interval (st_config s) = 0 \<Longrightarrow> cp_sequence cp = n \<Longrightarrow>
     cp_replica_id cp = st_node_id s \<Longrightarrow>
     cp_signature cp = state_sign L s (as_bytes (checkpoint_sign_data n (cp_digest cp))) \<Longrightarrow>
     atomic L M s [Out (Broadcast (Consensus (Checkpoint cp)))] s"
| add_checkpoint: "Checkpoint cp \<in> M \<Longrightarrow>
     atomic L M s [] (store_checkpoint cp s)"
| stabilise:
    "st_stable_checkpoint s < n \<Longrightarrow> unat (quorum (st_config s)) \<le> checkpoint_count n s \<Longrightarrow>
     atomic L M s [] (make_stable n s)"
| add_view_change: "ViewChange vc \<in> M \<Longrightarrow>
     st_view s < vc_new_view vc \<Longrightarrow> atomic L M s [] (store_view_change vc s)"
| announce_view:
    "primary_of (st_replicas s) (nv_new_view nv) = Some (st_node_id s) \<Longrightarrow>
     nv_primary_id nv = st_node_id s \<Longrightarrow> st_view s < nv_new_view nv \<Longrightarrow>
     unat (quorum (st_config s)) \<le> view_change_count (nv_new_view nv) s \<Longrightarrow>
     nv_signature nv = state_sign L s (as_bytes (new_view_sign_data (nv_new_view nv))) \<Longrightarrow>
     atomic L M s [Out (Broadcast (Consensus (NewView nv)))] s"
| enter_view:
    "NewView nv \<in> M \<Longrightarrow>
     st_view s < nv_new_view nv \<Longrightarrow>
     atomic L M s []
       (s\<lparr>st_view := nv_new_view nv, st_view_changing := False, st_last_primary_activity := now,
          st_view_changes := hm_retain (\<lambda>v. nv_new_view nv < v) (st_view_changes s)\<rparr>)"
| begin_view_change:
    "\<not> st_view_changing s \<Longrightarrow> vc_new_view vc = st_view s + 1 \<Longrightarrow> vc_replica_id vc = st_node_id s \<Longrightarrow>
     vc_signature vc = state_sign L s (as_bytes (view_change_sign_data (st_view s + 1))) \<Longrightarrow>
     atomic L M s [Out (Broadcast (Consensus (ViewChange vc)))]
       (store_view_change vc (s\<lparr>st_view_changing := True\<rparr>))"

section \<open>Rewriting the sections\<close>

lemma put_put [simp]: "put_instance n i (put_instance n j s) = put_instance n i s"
  by (simp add: put_instance_def hm_insert_def)

lemma get_or_create_fst: "fst (get_or_create_instance now n s) = instance_at now n s"
  by (simp add: get_or_create_instance_eq instance_at_def split: option.splits)

lemma get_or_create_put:
  "put_instance n i (snd (get_or_create_instance now n s)) = put_instance n i s"
  by (simp add: get_or_create_instance_eq split: option.splits)

lemma get_or_create_present:
  "hm_get (st_log s) n = Some inst \<Longrightarrow> get_or_create_instance now n s = (inst, s)"
  by (simp add: get_or_create_instance_eq)

lemma get_or_create_obtain:
  obtains s1 where "get_or_create_instance now n s = (instance_at now n s, s1)"
    and "\<And>i. put_instance n i s1 = put_instance n i s"
    and "s1 = s \<or> hm_get (st_log s) n = None"
  by (cases "hm_get (st_log s) n")
    (auto simp: get_or_create_instance_eq instance_at_def)

lemma instance_at_present: "hm_get (st_log s) n = Some inst \<Longrightarrow> instance_at now n s = inst"
  by (simp add: instance_at_def)

lemma instance_at_fresh:
  "hm_get (st_log s) n = None \<Longrightarrow> instance_at now n s = consensus_instance_new now n (st_view s)"
  by (simp add: instance_at_def)

lemma instance_at_frame [simp]: "instance_at now n (s\<lparr>st_sequence := k\<rparr>) = instance_at now n s"
  by (simp add: instance_at_def split: option.splits)

lemma state_sign_frame [simp]: "state_sign L (s\<lparr>st_sequence := k\<rparr>) m = state_sign L s m"
  by (simp add: state_sign_def)

lemma window_guard: "\<not> (n \<le> st_low_watermark s \<or> st_high_watermark s < n) \<longleftrightarrow> in_window n s"
  by (auto simp: in_window_def)

section \<open>Every section is a sequence of updates\<close>

lemma try_checkpoint_single:
  assumes "try_checkpoint L n s = (Ok (), s, [e])"
  shows "etrace (atomic L M) s [e] s"
proof (rule etrace_single)
  from assms obtain cp where e: "e = Out (Broadcast (Consensus (Checkpoint cp)))"
    and "n mod cf_checkpoint_interval (st_config s) = 0" "cp_sequence cp = n"
      "cp_replica_id cp = st_node_id s"
      "cp_signature cp = state_sign L s (as_bytes (checkpoint_sign_data n (cp_digest cp)))"
    by (auto simp: try_checkpoint_def try_checkpoint_section_def Let_def split: if_splits)
  then show "atomic L M s [e] s" unfolding e by (intro send_checkpoint)
qed

lemma try_checkpoint_trace:
  assumes "try_checkpoint L n s = (r, s', es)"
  shows "etrace (atomic L M) s es s'"
  using assms
proof (cases rule: try_checkpoint_cases)
  case (send cp)
  with assms show ?thesis by (simp add: try_checkpoint_single)
qed (simp_all add: etrace_refl)

lemma try_committed_section_cases:
  assumes "try_committed_section L n s = (x, s')"
  obtains (none) "x = Return (Ok ())" "s' = s"
  | (run) req where "x = Continue (Some req)" "atomic L M s [Committed_Request req] s'"
  | (quiet) "x = Continue None" "atomic L M s [] s'"
proof (cases "hm_get (st_log s) n")
  case None
  with assms show ?thesis by (intro none) (simp_all add: try_committed_section_def)
next
  case (Some inst)
  show ?thesis
  proof (cases "ci_phase inst = Prepared \<and> unat (quorum (st_config s)) \<le> hm_len (ci_commits inst)")
    case False
    with Some assms show ?thesis
      by (intro none) (auto simp: try_committed_section_def not_le split: if_splits)
  next
    case guard: True
    show ?thesis
    proof (cases "\<exists>req. ci_request inst = Some req \<and> request_digest L req \<notin> st_executed s")
      case True
      then obtain req where req: "ci_request inst = Some req" "request_digest L req \<notin> st_executed s"
        by blast
      with Some guard assms show ?thesis
        using execute [OF Some _ _ req] by (intro run [of req]) (auto simp: try_committed_section_def Let_def)
    next
      case False
      then have no: "ci_request inst = Some req \<Longrightarrow> request_digest L req \<in> st_executed s" for req
        by blast
      with Some guard assms show ?thesis
        using finish [OF Some _ _ no]
        by (intro quiet) (auto simp: try_committed_section_def Let_def split: option.splits if_splits)
    qed
  qed
qed

lemma try_advance_to_committed_trace:
  assumes "try_advance_to_committed L n s = (r, s', es)"
  shows "etrace (atomic L M) s es s'"
proof -
  obtain x t where x: "try_committed_section L n s = (x, t)" by fastforce
  then show ?thesis
  proof (cases rule: try_committed_section_cases [where M = M])
    case none
    with x assms show ?thesis by (auto simp: try_advance_to_committed_def intro: etrace_refl)
  next
    case (run req)
    from x run(1) assms have "emit [Committed_Request req] (try_checkpoint L n t) = (r, s', es)"
      by (simp add: try_advance_to_committed_def)
    then show ?thesis
      using etrace_outcome [OF etrace_single, of "atomic L M", OF run(2)] try_checkpoint_trace by blast
  next
    case quiet
    with x assms show ?thesis by (auto simp: try_advance_to_committed_def intro: etrace_single)
  qed
qed

lemma try_prepared_section_cases:
  assumes "try_prepared_section L n s = (x, s')"
  obtains (none) "x = Return (Ok ())" "s' = s"
  | (panic) inst where "x = Return Panic" "s' = s" "hm_get (st_log s) n = Some inst"
      "ci_pre_prepare inst \<noteq> None" "ci_digest inst = None"
  | (go) cm where "x = Continue cm" "atomic L M s [Out (Broadcast (Consensus (Commit cm)))] s'"
proof (cases "hm_get (st_log s) n")
  case None
  with assms show ?thesis by (intro none) (simp_all add: try_prepared_section_def)
next
  case (Some inst)
  show ?thesis
  proof (cases "ci_pre_prepare inst \<noteq> None \<and> ci_phase inst = PrePrepared \<and>
      unat (quorum (st_config s)) \<le> hm_len (ci_prepares inst)")
    case False
    with Some assms show ?thesis
      by (intro none) (auto simp: try_prepared_section_def not_le split: if_splits)
  next
    case guard: True
    show ?thesis
    proof (cases "ci_digest inst")
      case None
      with Some guard assms show ?thesis
        by (intro panic [of inst]) (auto simp: try_prepared_section_def)
    next
      case (Some d)
      with \<open>hm_get (st_log s) n = Some inst\<close> guard assms show ?thesis
        using become_prepared [OF \<open>hm_get (st_log s) n = Some inst\<close> _ _ _ Some refl]
        by (intro go) (auto simp: try_prepared_section_def own_commit_def Let_def)
    qed
  qed
qed

lemma try_advance_to_prepared_trace:
  assumes "try_advance_to_prepared L n s = (r, s', es)"
  shows "etrace (atomic L M) s es s'"
proof -
  obtain x t where x: "try_prepared_section L n s = (x, t)" by fastforce
  then show ?thesis
  proof (cases rule: try_prepared_section_cases [where M = M])
    case (go cm)
    from x go(1) assms
    have "emit [Out (Broadcast (Consensus (Commit cm)))] (try_advance_to_committed L n t) = (r, s', es)"
      by (simp add: try_advance_to_prepared_def)
    then show ?thesis
      using etrace_outcome [OF etrace_single, of "atomic L M", OF go(2)] try_advance_to_committed_trace
      by blast
  qed (use x assms in \<open>auto simp: try_advance_to_prepared_def intro: etrace_refl\<close>)
qed

section \<open>Every handler is a sequence of updates\<close>

lemma handle_request_section_cases:
  assumes "handle_request_section L now req s = (x, s')"
  obtains (panic) "x = Finished Panic" "s' = s" "st_replicas s = []"
  | (forward) p where "x = ForwardTo p" "s' = s" "primary s = Some p" "p \<noteq> st_node_id s"
  | (executed) "x = Finished (Ok ())" "s' = s" "primary s = Some (st_node_id s)"
      "request_digest L req \<in> st_executed s"
  | (full) "x = Finished (Err InvalidSequence)" "s' = s\<lparr>st_sequence := st_sequence s + 1\<rparr>"
      "primary s = Some (st_node_id s)" "request_digest L req \<notin> st_executed s"
      "st_high_watermark s < st_sequence s + 1"
  | (propose) n pp pr where "x = Proposed pp pr" "n = st_sequence s + 1"
      "pp = own_pre_prepare L n req s" "pr = own_prepare L n (request_digest L req) s"
      "s' = put_instance n (with_proposal pp pr (instance_at now n s)) (s\<lparr>st_sequence := n\<rparr>)"
      "primary s = Some (st_node_id s)" "request_digest L req \<notin> st_executed s"
      "n \<le> st_high_watermark s"
proof (cases "primary s")
  case None
  then have "st_replicas s = []" by (auto simp: primary_def primary_of_def split: if_splits)
  with None assms show ?thesis by (intro panic) (simp_all add: handle_request_section_def)
next
  case (Some p)
  note d = handle_request_section_def Let_def
  consider "p \<noteq> st_node_id s"
    | "p = st_node_id s" "request_digest L req \<in> st_executed s"
    | "p = st_node_id s" "request_digest L req \<notin> st_executed s" "st_high_watermark s < st_sequence s + 1"
    | "p = st_node_id s" "request_digest L req \<notin> st_executed s" "st_sequence s + 1 \<le> st_high_watermark s"
    by force
  then show ?thesis
  proof cases
    case 1
    with Some assms show ?thesis by (intro forward) (simp_all add: d)
  next
    case 2
    with Some assms show ?thesis by (intro executed) (simp_all add: d)
  next
    case 3
    with Some assms show ?thesis by (intro full) (simp_all add: d)
  next
    case 4
    define n where "n = st_sequence s + 1"
    define pp where "pp = own_pre_prepare L n req s"
    define pr where "pr = own_prepare L n (request_digest L req) s"
    obtain s2 where g: "get_or_create_instance now n (s\<lparr>st_sequence := n\<rparr>) = (instance_at now n s, s2)"
      and s2: "put_instance n i s2 = put_instance n i (s\<lparr>st_sequence := n\<rparr>)" for i
      by (rule get_or_create_obtain [of now n "s\<lparr>st_sequence := n\<rparr>"]) simp
    have "handle_request_section L now req s = (Proposed pp pr,
        put_instance n (with_proposal pp pr (instance_at now n s)) (s\<lparr>st_sequence := n\<rparr>))"
      using Some 4 g s2
      by (simp add: d n_def [symmetric])
        (simp add: pp_def pr_def own_pre_prepare_def own_prepare_def with_proposal_def)
    with assms Some 4 show ?thesis
      by (intro propose [of pp pr n]) (simp_all add: n_def pp_def pr_def)
  qed
qed

lemma handle_request_trace:
  assumes "handle_request L now req s = (r, s', es)" and "Request req \<in> M"
  shows "etrace (atomic L M) s es s'"
proof -
  obtain x t where x: "handle_request_section L now req s = (x, t)" by fastforce
  then show ?thesis
  proof (cases rule: handle_request_section_cases)
    case (forward p)
    with x assms show ?thesis
      by (auto simp: handle_request_def intro: etrace_single atomic.forward [OF assms(2)])
  next
    case full
    with x assms show ?thesis
      by (auto simp: handle_request_def intro: etrace_single atomic.exhausted [OF assms(2)])
  next
    case (propose n pp pr)
    have "atomic L M s [Out (Broadcast (Consensus (PrePrepare pp))), Out (Broadcast (Consensus (Prepare pr)))] t"
      unfolding propose(5) by (rule atomic.propose [OF assms(2)]) (use propose in simp_all)
    moreover from x propose(1) assms
    have "emit [Out (Broadcast (Consensus (PrePrepare pp))), Out (Broadcast (Consensus (Prepare pr)))]
        (try_advance_to_prepared L (pp_sequence pp) t) = (r, s', es)"
      by (simp add: handle_request_def)
    ultimately show ?thesis
      using etrace_outcome [OF etrace_single, of "atomic L M"] try_advance_to_prepared_trace by blast
  qed (use x assms in \<open>auto simp: handle_request_def intro: etrace_refl\<close>)
qed

lemma handle_pre_prepare_section_cases:
  assumes "handle_pre_prepare_section L now pp s = (x, s')"
  obtains (view) "x = Return (Err InvalidView)" "s' = s" "pp_view pp \<noteq> st_view s"
  | (panic) "x = Return Panic" "s' = s" "st_replicas s = []" "pp_view pp = st_view s"
  | (not_primary) "x = Return (Err NotPrimary)" "s' = s" "pp_view pp = st_view s"
      "primary s \<noteq> Some (pp_primary_id pp)"
  | (window) "x = Return (Err InvalidSequence)" "s' = s" "pp_view pp = st_view s"
      "primary s = Some (pp_primary_id pp)" "\<not> in_window (pp_sequence pp) s"
  | (signature) "x = Return (Err InvalidSignature)" "s' = s" "pp_view pp = st_view s"
      "primary s = Some (pp_primary_id pp)" "in_window (pp_sequence pp) s"
      "\<not> verify_node_signature L (pp_primary_id pp)
         (as_bytes (prepare_sign_data (pp_view pp) (pp_sequence pp) (pp_digest pp))) (pp_signature pp)"
  | (known) r inst where "x = Return r" "s' = s" "hm_get (st_log s) (pp_sequence pp) = Some inst"
      "ci_pre_prepare inst \<noteq> None"
      "r = (if ci_digest inst = Some (pp_digest pp) then Ok () else Err InvalidMessage)"
  | (digest) "x = Return (Err InvalidMessage)" "s' = s"
      "request_digest L (pp_request pp) \<noteq> pp_digest pp"
  | (accept) n pr where "x = Continue pr" "n = pp_sequence pp"
      "pr = own_prepare L n (pp_digest pp) s" "pp_view pp = st_view s"
      "primary s = Some (pp_primary_id pp)" "in_window n s"
      "verify_node_signature L (pp_primary_id pp)
         (as_bytes (prepare_sign_data (pp_view pp) n (pp_digest pp))) (pp_signature pp)"
      "ci_pre_prepare (instance_at now n s) = None"
      "request_digest L (pp_request pp) = pp_digest pp"
      "s' = (put_instance n (with_proposal pp pr (instance_at now n s)) s)\<lparr>st_last_primary_activity := now\<rparr>"
proof -
  define n where "n = pp_sequence pp"
  note d = handle_pre_prepare_section_def Let_def n_def [symmetric]
  note w = window_guard [of n s]
  let ?ok = "verify_node_signature L (pp_primary_id pp)
     (as_bytes (prepare_sign_data (pp_view pp) n (pp_digest pp))) (pp_signature pp)"
  consider "pp_view pp \<noteq> st_view s"
    | "pp_view pp = st_view s" "primary s = None"
    | p where "pp_view pp = st_view s" "primary s = Some p" "p \<noteq> pp_primary_id pp"
    | "pp_view pp = st_view s" "primary s = Some (pp_primary_id pp)" "\<not> in_window n s"
    | "pp_view pp = st_view s" "primary s = Some (pp_primary_id pp)" "in_window n s" "\<not> ?ok"
    | "pp_view pp = st_view s" "primary s = Some (pp_primary_id pp)" "in_window n s" "?ok"
    by fastforce
  then show ?thesis
  proof cases
    case 1
    with assms show ?thesis by (intro view) (simp_all add: d)
  next
    case 2
    then have "st_replicas s = []" by (auto simp: primary_def primary_of_def split: if_splits)
    with 2 assms show ?thesis by (intro panic) (simp_all add: d)
  next
    case 3
    with assms show ?thesis by (intro not_primary) (auto simp: d)
  next
    case 4
    with assms show ?thesis
      by (intro window) (auto simp: d in_window_def not_le not_less split: if_splits)
  next
    case 5
    with assms w show ?thesis by (intro signature) (simp_all add: d)
  next
    case ok: 6
    obtain s1 where g: "get_or_create_instance now n s = (instance_at now n s, s1)"
      and s1: "put_instance n i s1 = put_instance n i s" for i
      by (rule get_or_create_obtain [of now n s]) simp
    have sec: "handle_pre_prepare_section L now pp s =
        (case (case hm_get (st_log s) n of None \<Rightarrow> None
               | Some inst \<Rightarrow> if ci_pre_prepare inst \<noteq> None then Some inst else None) of
           Some inst \<Rightarrow> if ci_digest inst \<noteq> Some (pp_digest pp) then (Return (Err InvalidMessage), s)
                        else (Return (Ok ()), s)
         | None \<Rightarrow> if request_digest L (pp_request pp) \<noteq> pp_digest pp
             then (Return (Err InvalidMessage), s)
             else (Continue (own_prepare L n (pp_digest pp) s),
                   (put_instance n (with_proposal pp (own_prepare L n (pp_digest pp) s)
                      (instance_at now n s)) s)\<lparr>st_last_primary_activity := now\<rparr>))"
      using ok w by (simp add: d g s1 own_prepare_def with_proposal_def split: option.splits)
    show ?thesis
    proof (cases "\<exists>inst. hm_get (st_log s) n = Some inst \<and> ci_pre_prepare inst \<noteq> None")
      case True
      then obtain inst where "hm_get (st_log s) n = Some inst" "ci_pre_prepare inst \<noteq> None" by blast
      with assms sec show ?thesis
        by (intro known [OF _ _ _ _ refl]) (auto simp: n_def split: if_splits)
    next
      case False
      then have no: "ci_pre_prepare (instance_at now n s) = None"
        by (auto simp: instance_at_def split: option.splits)
      from False have "(case hm_get (st_log s) n of None \<Rightarrow> None
          | Some inst \<Rightarrow> if ci_pre_prepare inst \<noteq> None then Some inst else None) = None"
        by (auto split: option.splits)
      with sec assms no ok show ?thesis
        by (cases "request_digest L (pp_request pp) = pp_digest pp")
          (auto simp: n_def intro: digest accept)
    qed
  qed
qed

lemma handle_pre_prepare_trace:
  assumes "handle_pre_prepare L now pp s = (r, s', es)" and "PrePrepare pp \<in> M"
  shows "etrace (atomic L M) s es s'"
proof -
  obtain x t where x: "handle_pre_prepare_section L now pp s = (x, t)" by fastforce
  then show ?thesis
  proof (cases rule: handle_pre_prepare_section_cases)
    case (accept n pr)
    have "atomic L M s [Out (Broadcast (Consensus (Prepare pr)))] t"
      unfolding accept(10) by (rule atomic.accept [OF assms(2)]) (use accept in simp_all)
    moreover from x accept(1) assms
    have "emit [Out (Broadcast (Consensus (Prepare pr)))]
        (try_advance_to_prepared L (pr_sequence pr) t) = (r, s', es)"
      by (simp add: handle_pre_prepare_def)
    ultimately show ?thesis
      using etrace_outcome [OF etrace_single, of "atomic L M"] try_advance_to_prepared_trace by blast
  qed (use x assms in \<open>auto simp: handle_pre_prepare_def intro: etrace_refl\<close>)
qed

lemma handle_prepare_section_cases:
  assumes "handle_prepare_section L now pr s = (x, s')"
  obtains (view) "x = Return (Err InvalidView)" "s' = s" "pr_view pr \<noteq> st_view s"
  | (window) "x = Return (Err InvalidSequence)" "s' = s" "pr_view pr = st_view s"
      "\<not> in_window (pr_sequence pr) s"
  | (signature) "x = Return (Err InvalidSignature)" "s' = s" "pr_view pr = st_view s"
      "in_window (pr_sequence pr) s"
      "\<not> verify_node_signature L (pr_replica_id pr)
         (as_bytes (prepare_sign_data (pr_view pr) (pr_sequence pr) (pr_digest pr))) (pr_signature pr)"
  | (conflict) inst pp where "x = Return (Err InvalidMessage)" "s' = s"
      "hm_get (st_log s) (pr_sequence pr) = Some inst" "ci_pre_prepare inst = Some pp"
      "pp_digest pp \<noteq> pr_digest pr"
  | (duplicate) inst where "x = Return (Ok ())" "s' = s"
      "hm_get (st_log s) (pr_sequence pr) = Some inst" "hm_get (ci_prepares inst) (pr_replica_id pr) \<noteq> None"
  | (add) n inst where "x = Continue n" "n = pr_sequence pr" "inst = instance_at now n s"
      "pr_view pr = st_view s" "in_window n s"
      "verify_node_signature L (pr_replica_id pr)
         (as_bytes (prepare_sign_data (pr_view pr) n (pr_digest pr))) (pr_signature pr)"
      "\<And>pp. ci_pre_prepare inst = Some pp \<Longrightarrow> pp_digest pp = pr_digest pr"
      "hm_get (ci_prepares inst) (pr_replica_id pr) = None"
      "s' = put_instance n (inst\<lparr>ci_prepares := hm_insert (pr_replica_id pr) pr (ci_prepares inst)\<rparr>) s"
proof -
  define n where "n = pr_sequence pr"
  define inst where "inst = instance_at now n s"
  note d = handle_prepare_section_def Let_def n_def [symmetric] hm_contains_key_def
  note w = window_guard [of n s]
  let ?ok = "verify_node_signature L (pr_replica_id pr)
     (as_bytes (prepare_sign_data (pr_view pr) n (pr_digest pr))) (pr_signature pr)"
  obtain s1 where g: "get_or_create_instance now n s = (inst, s1)"
    and s1: "put_instance n i s1 = put_instance n i s"
    and known: "s1 = s \<or> hm_get (st_log s) n = None" for i
    unfolding inst_def by (rule get_or_create_obtain [of now n s]) simp
  have fresh: "hm_get (st_log s) n = None \<Longrightarrow> ci_pre_prepare inst = None \<and> ci_prepares inst = hm_new"
    by (simp add: inst_def instance_at_fresh)
  have present: "hm_get (st_log s) n \<noteq> None \<Longrightarrow> hm_get (st_log s) n = Some inst"
    by (auto simp: inst_def instance_at_def)
  consider "pr_view pr \<noteq> st_view s"
    | "pr_view pr = st_view s" "\<not> in_window n s"
    | "pr_view pr = st_view s" "in_window n s" "\<not> ?ok"
    | pp where "pr_view pr = st_view s" "in_window n s" "?ok" "ci_pre_prepare inst = Some pp"
        "pp_digest pp \<noteq> pr_digest pr"
    | "pr_view pr = st_view s" "in_window n s" "?ok"
        "\<forall>pp. ci_pre_prepare inst = Some pp \<longrightarrow> pp_digest pp = pr_digest pr"
        "hm_get (ci_prepares inst) (pr_replica_id pr) \<noteq> None"
    | "pr_view pr = st_view s" "in_window n s" "?ok"
        "\<forall>pp. ci_pre_prepare inst = Some pp \<longrightarrow> pp_digest pp = pr_digest pr"
        "hm_get (ci_prepares inst) (pr_replica_id pr) = None"
    by blast
  then show ?thesis
  proof cases
    case 1
    with assms show ?thesis by (intro view) (simp_all add: d)
  next
    case 2
    with assms show ?thesis
      by (intro window) (auto simp: d in_window_def not_le not_less split: if_splits)
  next
    case 3
    with assms w show ?thesis by (intro signature) (simp_all add: d)
  next
    case 4
    then have "hm_get (st_log s) n \<noteq> None"
      using fresh by (cases "hm_get (st_log s) n") auto
    with 4 assms w g known present show ?thesis by (intro conflict [of inst]) (auto simp: d)
  next
    case 5
    then have "hm_get (st_log s) n \<noteq> None"
      using fresh by (cases "hm_get (st_log s) n") auto
    with 5 assms w g known present show ?thesis
      by (intro duplicate [of inst]) (auto simp: d split: option.splits)
  next
    case 6
    with assms w g s1 have "x = Continue n"
      "s' = put_instance n (inst\<lparr>ci_prepares := hm_insert (pr_replica_id pr) pr (ci_prepares inst)\<rparr>) s"
      by (simp_all add: d split: option.splits)
    with 6 show ?thesis by (intro add [OF _ n_def inst_def]) simp_all
  qed
qed

lemma handle_prepare_trace:
  assumes "handle_prepare L now pr s = (r, s', es)" and "Prepare pr \<in> M"
  shows "etrace (atomic L M) s es s'"
proof -
  obtain x t where x: "handle_prepare_section L now pr s = (x, t)" by fastforce
  then show ?thesis
  proof (cases rule: handle_prepare_section_cases)
    case (add n inst)
    have "atomic L M s [] t"
      unfolding add(9) by (rule add_prepare [OF assms(2)]) (use add in simp_all)
    moreover from x add(1) assms have "try_advance_to_prepared L n t = (r, s', es)"
      by (simp add: handle_prepare_def)
    ultimately show ?thesis
      by (blast intro: etrace_nil_step try_advance_to_prepared_trace)
  qed (use x assms in \<open>auto simp: handle_prepare_def intro: etrace_refl\<close>)
qed

lemma handle_commit_section_cases:
  assumes "handle_commit_section L now cm s = (x, s')"
  obtains (view) "x = Return (Err InvalidView)" "s' = s" "cm_view cm \<noteq> st_view s"
  | (window) "x = Return (Err InvalidSequence)" "s' = s" "cm_view cm = st_view s"
      "\<not> in_window (cm_sequence cm) s"
  | (signature) "x = Return (Err InvalidSignature)" "s' = s" "cm_view cm = st_view s"
      "in_window (cm_sequence cm) s"
      "\<not> verify_node_signature L (cm_replica_id cm)
         (as_bytes (commit_sign_data (cm_view cm) (cm_sequence cm) (cm_digest cm))) (cm_signature cm)"
  | (conflict) inst d where "x = Return (Err InvalidMessage)" "s' = s"
      "hm_get (st_log s) (cm_sequence cm) = Some inst" "ci_digest inst = Some d" "cm_digest cm \<noteq> d"
  | (duplicate) inst where "x = Return (Ok ())" "s' = s"
      "hm_get (st_log s) (cm_sequence cm) = Some inst" "hm_get (ci_commits inst) (cm_replica_id cm) \<noteq> None"
  | (add) n inst where "x = Continue n" "n = cm_sequence cm" "inst = instance_at now n s"
      "cm_view cm = st_view s" "in_window n s"
      "verify_node_signature L (cm_replica_id cm)
         (as_bytes (commit_sign_data (cm_view cm) n (cm_digest cm))) (cm_signature cm)"
      "\<And>d. ci_digest inst = Some d \<Longrightarrow> d = cm_digest cm"
      "hm_get (ci_commits inst) (cm_replica_id cm) = None"
      "s' = put_instance n (inst\<lparr>ci_commits := hm_insert (cm_replica_id cm) cm (ci_commits inst)\<rparr>) s"
proof -
  define n where "n = cm_sequence cm"
  define inst where "inst = instance_at now n s"
  note d = handle_commit_section_def Let_def n_def [symmetric] hm_contains_key_def
  note w = window_guard [of n s]
  let ?ok = "verify_node_signature L (cm_replica_id cm)
     (as_bytes (commit_sign_data (cm_view cm) n (cm_digest cm))) (cm_signature cm)"
  obtain s1 where g: "get_or_create_instance now n s = (inst, s1)"
    and s1: "put_instance n i s1 = put_instance n i s"
    and known: "s1 = s \<or> hm_get (st_log s) n = None" for i
    unfolding inst_def by (rule get_or_create_obtain [of now n s]) simp
  have fresh: "hm_get (st_log s) n = None \<Longrightarrow> ci_digest inst = None \<and> ci_commits inst = hm_new"
    by (simp add: inst_def instance_at_fresh)
  have present: "hm_get (st_log s) n \<noteq> None \<Longrightarrow> hm_get (st_log s) n = Some inst"
    by (auto simp: inst_def instance_at_def)
  consider "cm_view cm \<noteq> st_view s"
    | "cm_view cm = st_view s" "\<not> in_window n s"
    | "cm_view cm = st_view s" "in_window n s" "\<not> ?ok"
    | e where "cm_view cm = st_view s" "in_window n s" "?ok" "ci_digest inst = Some e" "cm_digest cm \<noteq> e"
    | "cm_view cm = st_view s" "in_window n s" "?ok"
        "\<forall>e. ci_digest inst = Some e \<longrightarrow> e = cm_digest cm"
        "hm_get (ci_commits inst) (cm_replica_id cm) \<noteq> None"
    | "cm_view cm = st_view s" "in_window n s" "?ok"
        "\<forall>e. ci_digest inst = Some e \<longrightarrow> e = cm_digest cm"
        "hm_get (ci_commits inst) (cm_replica_id cm) = None"
    by metis
  then show ?thesis
  proof cases
    case 1
    with assms show ?thesis by (intro view) (simp_all add: d)
  next
    case 2
    with assms show ?thesis
      by (intro window) (auto simp: d in_window_def not_le not_less split: if_splits)
  next
    case 3
    with assms w show ?thesis by (intro signature) (simp_all add: d)
  next
    case 4
    then have "hm_get (st_log s) n \<noteq> None"
      using fresh by (cases "hm_get (st_log s) n") auto
    with 4 assms w g known present show ?thesis by (intro conflict [of inst]) (auto simp: d)
  next
    case 5
    then have "hm_get (st_log s) n \<noteq> None"
      using fresh by (cases "hm_get (st_log s) n") auto
    with 5 assms w g known present show ?thesis
      by (intro duplicate [of inst]) (auto simp: d split: option.splits)
  next
    case 6
    with assms w g s1 have "x = Continue n"
      "s' = put_instance n (inst\<lparr>ci_commits := hm_insert (cm_replica_id cm) cm (ci_commits inst)\<rparr>) s"
      by (simp_all add: d split: option.splits)
    with 6 show ?thesis by (intro add [OF _ n_def inst_def]) simp_all
  qed
qed

lemma handle_commit_trace:
  assumes "handle_commit L now cm s = (r, s', es)" and "Commit cm \<in> M"
  shows "etrace (atomic L M) s es s'"
proof -
  obtain x t where x: "handle_commit_section L now cm s = (x, t)" by fastforce
  then show ?thesis
  proof (cases rule: handle_commit_section_cases)
    case (add n inst)
    have "atomic L M s [] t"
      unfolding add(9) by (rule add_commit [OF assms(2)]) (use add in simp_all)
    moreover from x add(1) assms have "try_advance_to_committed L n t = (r, s', es)"
      by (simp add: handle_commit_def)
    ultimately show ?thesis
      by (blast intro: etrace_nil_step try_advance_to_committed_trace)
  qed (use x assms in \<open>auto simp: handle_commit_def intro: etrace_refl\<close>)
qed

lemma handle_checkpoint_trace:
  assumes "handle_checkpoint cp s = (r, s', es)" and "Checkpoint cp \<in> M"
  shows "etrace (atomic L M) s es s'"
  using assms(1)
proof (cases rule: handle_checkpoint_cases)
  case store
  with assms(2) show ?thesis by (auto intro: etrace_single add_checkpoint)
next
  case stable
  have "atomic L M (store_checkpoint cp s) [] s'"
    unfolding stable(3) by (rule stabilise) (use stable in simp_all)
  with stable(2) show ?thesis
    using etrace_nil_step [of "atomic L M", OF add_checkpoint [OF assms(2)] etrace_single] by simp
qed

lemma start_view_change_trace:
  assumes "start_view_change L s = (r, s', es)"
  shows "etrace (atomic L M) s es s'"
  using assms
  by (cases rule: start_view_change_cases)
    (auto intro: etrace_refl etrace_single begin_view_change)

lemma handle_view_change_trace:
  assumes "handle_view_change L vc s = (r, s', es)" and "ViewChange vc \<in> M"
  shows "etrace (atomic L M) s es s'"
proof (cases "vc_new_view vc \<le> st_view s")
  case True
  with assms(1) show ?thesis
    by (auto simp: handle_view_change_def handle_view_change_section_def intro: etrace_refl)
next
  case False
  then have add: "atomic L M s [] (store_view_change vc s)"
    using assms(2) by (intro add_view_change) simp_all
  from assms(1) show ?thesis
  proof (cases rule: handle_view_change_cases)
    case (announce nv)
    have "atomic L M (store_view_change vc s) es s'"
      unfolding announce(2,3)
      by (rule announce_view) (use announce in \<open>simp_all add: state_sign_def\<close>)
    then show ?thesis
      using etrace_nil_step [of "atomic L M", OF add etrace_single] by simp
  qed (use False add in \<open>auto intro: etrace_single\<close>)
qed

lemma handle_new_view_trace:
  assumes "handle_new_view now nv s = (r, s', es)" and "NewView nv \<in> M"
  shows "etrace (atomic L M) s es s'"
  using assms(1)
  by (cases rule: handle_new_view_cases) (auto intro: etrace_refl etrace_single enter_view [OF assms(2)])

lemma check_timeout_trace:
  assumes "check_timeout L now s = (r, s', es)"
  shows "etrace (atomic L M) s es s'"
  using assms
  by (cases rule: check_timeout_cases) (auto intro: etrace_refl start_view_change_trace)

lemmas handler_traces =
  handle_request_trace handle_pre_prepare_trace handle_prepare_trace handle_commit_trace
  handle_view_change_trace handle_new_view_trace handle_checkpoint_trace check_timeout_trace
  start_view_change_trace

fun event_messages :: "event \<Rightarrow> consensus_message set" where
  "event_messages (Receive now msg) = {msg}"
| "event_messages (Timer now) = {}"
| "event_messages Start_View_Change = {}"

lemma process_message_trace:
  "process_message L now msg s = (r, s', es) \<Longrightarrow> msg \<in> M \<Longrightarrow> etrace (atomic L M) s es s'"
  by (cases msg) (auto simp: process_message_def intro: handler_traces etrace_refl)

lemma replica_step_trace:
  "replica_step L ev s = (r, s', es) \<Longrightarrow> event_messages ev \<subseteq> M \<Longrightarrow> etrace (atomic L M) s es s'"
  by (cases ev) (auto simp: replica_step_def intro: handler_traces process_message_trace)

lemma replica_run_trace:
  "replica_run L evs s = (alive, s', es) \<Longrightarrow> \<Union> (event_messages ` set evs) \<subseteq> M \<Longrightarrow>
   etrace (atomic L M) s es s'"
proof (induction evs arbitrary: s alive s' es)
  case Nil
  then show ?case by (auto intro: etrace_refl)
next
  case (Cons ev evs)
  obtain r t fs where st: "replica_step L ev s = (r, t, fs)" using prod_cases3 by blast
  obtain al u gs where ru: "replica_run L evs t = (al, u, gs)" using prod_cases3 by blast
  from Cons.prems(2) have m: "event_messages ev \<subseteq> M" "\<Union> (event_messages ` set evs) \<subseteq> M" by auto
  from st m(1) have "etrace (atomic L M) s fs t" by (rule replica_step_trace)
  with Cons.prems(1) st ru Cons.IH [OF ru m(2)] show ?case
    by (cases r) (auto intro: etrace_trans)
qed

lemmas replica_run_trace_all = replica_run_trace [OF _ subset_UNIV]
lemmas replica_step_trace_all = replica_step_trace [OF _ subset_UNIV]

end
