(* ===== verification/Replica_Invariants.thy ===== *)
theory Replica_Invariants
  imports Atomic_Updates
begin

text \<open>
  What every replica keeps true of itself, whatever messages it receives: well-formed log
  entries with their vote counts and signatures, the water marks, execution at most once, and
  the fields that never change or never go back. Each invariant is checked for the atomic
  updates and lifted to runs by the locale \<open>history_invariant\<close>.
\<close>

section \<open>Well-formed log entries\<close>

definition valid_prepare :: "('sk, 'vk) crypto_lib \<Rightarrow> sequence_number \<Rightarrow> node_id \<Rightarrow> prepare \<Rightarrow> bool" where
  "valid_prepare L n i pr \<longleftrightarrow>
     pr_replica_id pr = i \<and> pr_sequence pr = n \<and>
     verify_node_signature L i (as_bytes (prepare_sign_data (pr_view pr) n (pr_digest pr)))
       (pr_signature pr)"

definition valid_commit :: "('sk, 'vk) crypto_lib \<Rightarrow> sequence_number \<Rightarrow> node_id \<Rightarrow> commit \<Rightarrow> bool" where
  "valid_commit L n i cm \<longleftrightarrow>
     cm_replica_id cm = i \<and> cm_sequence cm = n \<and>
     verify_node_signature L i (as_bytes (commit_sign_data (cm_view cm) n (cm_digest cm)))
       (cm_signature cm)"

definition proposal_wf ::
  "('sk, 'vk) crypto_lib \<Rightarrow> sequence_number \<Rightarrow> consensus_instance \<Rightarrow> bool" where
  "proposal_wf L n inst \<longleftrightarrow>
     (case ci_pre_prepare inst of
        None \<Rightarrow> ci_digest inst = None \<and> ci_request inst = None \<and> ci_phase inst = Idle
      | Some pp \<Rightarrow> pp_sequence pp = n \<and> ci_digest inst = Some (pp_digest pp) \<and>
          ci_request inst = Some (pp_request pp) \<and>
          request_digest L (pp_request pp) = pp_digest pp \<and> ci_phase inst \<noteq> Idle)"

definition votes_wf ::
  "('sk, 'vk) crypto_lib \<Rightarrow> sequence_number \<Rightarrow> consensus_instance \<Rightarrow> bool" where
  "votes_wf L n inst \<longleftrightarrow>
     (\<forall>i pr. hm_get (ci_prepares inst) i = Some pr \<longrightarrow> valid_prepare L n i pr) \<and>
     (\<forall>i cm. hm_get (ci_commits inst) i = Some cm \<longrightarrow> valid_commit L n i cm)"

definition phase_wf :: "nat \<Rightarrow> hash set \<Rightarrow> consensus_instance \<Rightarrow> bool" where
  "phase_wf q ex inst \<longleftrightarrow>
     (ci_phase inst = Prepared \<or> ci_phase inst = Committed \<longrightarrow> q \<le> hm_len (ci_prepares inst)) \<and>
     (ci_phase inst = Committed \<longrightarrow>
        q \<le> hm_len (ci_commits inst) \<and> (\<forall>d. ci_digest inst = Some d \<longrightarrow> d \<in> ex))"

definition instance_wf ::
  "('sk, 'vk) crypto_lib \<Rightarrow> nat \<Rightarrow> hash set \<Rightarrow> sequence_number \<Rightarrow> consensus_instance \<Rightarrow> bool" where
  "instance_wf L q ex n inst \<longleftrightarrow>
     ci_sequence inst = n \<and> proposal_wf L n inst \<and> votes_wf L n inst \<and> phase_wf q ex inst"

definition state_quorum :: "('sk, 'vk) pbft_state \<Rightarrow> nat" where
  "state_quorum s = unat (quorum (st_config s))"

definition identity_ok :: "('sk, 'vk) crypto_lib \<Rightarrow> ('sk, 'vk) pbft_state \<Rightarrow> bool" where
  "identity_ok L s \<longleftrightarrow>
     keypair_wf L (st_keypair s) \<and> st_node_id s = public_key_hex L (st_keypair s)"

definition watermarks_ok :: "('sk, 'vk) pbft_state \<Rightarrow> bool" where
  "watermarks_ok s \<longleftrightarrow>
     st_low_watermark s = st_stable_checkpoint s \<and>
     st_high_watermark s = st_low_watermark s + cf_checkpoint_interval (st_config s) * 2"

definition log_wf :: "('sk, 'vk) crypto_lib \<Rightarrow> ('sk, 'vk) pbft_state \<Rightarrow> bool" where
  "log_wf L s \<longleftrightarrow>
     (\<forall>n inst. hm_get (st_log s) n = Some inst \<longrightarrow>
        instance_wf L (state_quorum s) (st_executed s) n inst)"

definition state_wf :: "('sk, 'vk) crypto_lib \<Rightarrow> ('sk, 'vk) pbft_state \<Rightarrow> bool" where
  "state_wf L s \<longleftrightarrow> identity_ok L s \<and> watermarks_ok s \<and> log_wf L s"

section \<open>Entries under the updates\<close>

lemma instance_wf_new: "instance_wf L q ex n (consensus_instance_new now n v)"
  by (simp add: instance_wf_def proposal_wf_def votes_wf_def phase_wf_def)

lemma instance_wf_mono: "instance_wf L q ex n inst \<Longrightarrow> ex \<subseteq> ex' \<Longrightarrow> instance_wf L q ex' n inst"
  by (auto simp: instance_wf_def phase_wf_def)

lemma log_wfD: "log_wf L s \<Longrightarrow> hm_get (st_log s) n = Some inst \<Longrightarrow>
    instance_wf L (state_quorum s) (st_executed s) n inst"
  by (simp add: log_wf_def)

lemma instance_at_wf: "log_wf L s \<Longrightarrow> instance_wf L (state_quorum s) (st_executed s) n (instance_at now n s)"
  by (simp add: instance_at_def instance_wf_new log_wfD split: option.splits)

lemma instance_wf_proposal:
  assumes "instance_wf L q ex n inst" and "pp_sequence pp = n"
    and "request_digest L (pp_request pp) = pp_digest pp" and "valid_prepare L n (pr_replica_id pr) pr"
  shows "instance_wf L q ex n (with_proposal pp pr inst)"
  using assms
  by (auto simp: instance_wf_def proposal_wf_def votes_wf_def phase_wf_def with_proposal_def
      split: option.splits)

lemma instance_wf_add_prepare:
  assumes "instance_wf L q ex n inst" and "valid_prepare L n i pr" and "hm_get (ci_prepares inst) i = None"
  shows "instance_wf L q ex n (inst\<lparr>ci_prepares := hm_insert i pr (ci_prepares inst)\<rparr>)"
  using assms
  by (auto simp: instance_wf_def proposal_wf_def votes_wf_def phase_wf_def split: option.splits)

lemma instance_wf_add_commit:
  assumes "instance_wf L q ex n inst" and "valid_commit L n i cm" and "hm_get (ci_commits inst) i = None"
  shows "instance_wf L q ex n (inst\<lparr>ci_commits := hm_insert i cm (ci_commits inst)\<rparr>)"
  using assms
  by (auto simp: instance_wf_def proposal_wf_def votes_wf_def phase_wf_def split: option.splits)

lemma instance_wf_prepared:
  assumes "instance_wf L q ex n inst" and "valid_commit L n i cm"
    and "ci_pre_prepare inst \<noteq> None" and "q \<le> hm_len (ci_prepares inst)"
  shows "instance_wf L q ex n (inst\<lparr>ci_phase := Prepared, ci_commits := hm_insert i cm (ci_commits inst)\<rparr>)"
  using assms
  by (auto simp: instance_wf_def proposal_wf_def votes_wf_def phase_wf_def split: option.splits)

lemma instance_wf_committed:
  assumes "instance_wf L q ex n inst" and "ci_phase inst = Prepared"
    and "q \<le> hm_len (ci_commits inst)"
    and "\<And>req. ci_request inst = Some req \<Longrightarrow> request_digest L req \<in> ex'" and "ex \<subseteq> ex'"
  shows "instance_wf L q ex' n (inst\<lparr>ci_phase := Committed\<rparr>)"
  using assms
  by (auto simp: instance_wf_def proposal_wf_def votes_wf_def phase_wf_def split: option.splits)

lemma own_prepare_valid:
  "crypto_ok L \<Longrightarrow> identity_ok L s \<Longrightarrow> valid_prepare L n (pr_replica_id (own_prepare L n d s)) (own_prepare L n d s)"
  by (simp add: valid_prepare_def own_prepare_def identity_ok_def state_sign_def ed25519.own_signature)

lemma own_commit_valid:
  "crypto_ok L \<Longrightarrow> identity_ok L s \<Longrightarrow> valid_commit L n (st_node_id s) (own_commit L v n d s)"
  by (simp add: valid_commit_def own_commit_def identity_ok_def state_sign_def ed25519.own_signature)

lemma own_prepare_sel [simp]:
  "pr_view (own_prepare L n d s) = st_view s" "pr_sequence (own_prepare L n d s) = n"
  "pr_digest (own_prepare L n d s) = d" "pr_replica_id (own_prepare L n d s) = st_node_id s"
  by (simp_all add: own_prepare_def)

lemma own_pre_prepare_sel [simp]:
  "pp_view (own_pre_prepare L n req s) = st_view s" "pp_sequence (own_pre_prepare L n req s) = n"
  "pp_digest (own_pre_prepare L n req s) = request_digest L req"
  "pp_request (own_pre_prepare L n req s) = req" "pp_primary_id (own_pre_prepare L n req s) = st_node_id s"
  by (simp_all add: own_pre_prepare_def)

lemma own_commit_sel [simp]:
  "cm_view (own_commit L v n d s) = v" "cm_sequence (own_commit L v n d s) = n"
  "cm_digest (own_commit L v n d s) = d" "cm_replica_id (own_commit L v n d s) = st_node_id s"
  by (simp_all add: own_commit_def)

section \<open>The updates keep a state well-formed\<close>

lemma state_wf_put:
  assumes "state_wf L s" and "instance_wf L (state_quorum s) (st_executed s) n inst"
  shows "state_wf L (put_instance n inst s)"
  using assms by (simp add: state_wf_def identity_ok_def watermarks_ok_def log_wf_def state_quorum_def)

lemma state_wf_same_log:
  assumes "state_wf L s" and "st_node_id t = st_node_id s" "st_keypair t = st_keypair s"
    "st_config t = st_config s" "st_log t = st_log s" "st_executed t = st_executed s"
    "st_low_watermark t = st_low_watermark s" "st_high_watermark t = st_high_watermark s"
    "st_stable_checkpoint t = st_stable_checkpoint s"
  shows "state_wf L t"
  using assms by (simp add: state_wf_def identity_ok_def watermarks_ok_def log_wf_def state_quorum_def)

lemma state_wf_make_stable: "state_wf L s \<Longrightarrow> state_wf L (make_stable n s)"
  by (simp add: state_wf_def identity_ok_def watermarks_ok_def log_wf_def state_quorum_def)

lemma atomic_state_wf:
  assumes "atomic L M s es s'" and "crypto_ok L" and "state_wf L s"
  shows "state_wf L s'"
proof -
  from assms(3) have idok: "identity_ok L s" and log: "log_wf L s" by (simp_all add: state_wf_def)
  note at = instance_at_wf [OF log]
  note own = own_prepare_valid [OF assms(2) idok] own_commit_valid [OF assms(2) idok]
  note q = state_quorum_def
  from assms(1) show ?thesis
  proof cases
    case (propose req n pp pr now)
    have w: "state_wf L (put_instance n (with_proposal pp pr (instance_at now n s)) s)"
      using propose(4-) own by (intro state_wf_put assms instance_wf_proposal at) simp_all
    show ?thesis
      by (rule state_wf_same_log [OF w]) (simp_all add: propose)
  next
    case (accept pp n now pr)
    have w: "state_wf L (put_instance n (with_proposal pp pr (instance_at now n s)) s)"
      using accept(3-) own by (intro state_wf_put assms instance_wf_proposal at) simp_all
    show ?thesis
      by (rule state_wf_same_log [OF w]) (simp_all add: accept)
  next
    case (add_prepare pr n inst now)
    then show ?thesis
      by (auto simp: valid_prepare_def intro!: state_wf_put assms instance_wf_add_prepare at)
  next
    case (add_commit cm n inst now)
    then show ?thesis
      by (auto simp: valid_commit_def intro!: state_wf_put assms instance_wf_add_commit at)
  next
    case (become_prepared n inst d cm)
    then show ?thesis
      using own(2) by (auto simp: q intro!: state_wf_put assms instance_wf_prepared [OF log_wfD [OF log]])
  next
    case (execute n inst req)
    let ?ex = "insert (request_digest L req) (st_executed s)"
    have i: "instance_wf L (state_quorum s) ?ex n (inst\<lparr>ci_phase := Committed\<rparr>)"
      using execute by (intro instance_wf_committed [OF log_wfD [OF log]]) (auto simp: q)
    have "instance_wf L (state_quorum s) ?ex m j" if "hm_get (st_log s) m = Some j" for m j
      using log_wfD [OF log that] by (rule instance_wf_mono) auto
    with i assms(3) execute(2) show ?thesis
      by (auto simp: state_wf_def identity_ok_def watermarks_ok_def log_wf_def q)
  next
    case (finish n inst)
    then show ?thesis
      by (auto simp: q intro!: state_wf_put assms instance_wf_committed [OF log_wfD [OF log]])
  next
    case (stabilise n)
    with assms(3) show ?thesis by (simp add: state_wf_make_stable)
  qed (use assms(3) in \<open>auto intro: state_wf_same_log [OF assms(3)]\<close>)
qed

interpretation wf_inv: history_invariant "atomic L M" "\<lambda>s h. crypto_ok L \<and> state_wf L s" for L M
  by unfold_locales (blast intro: atomic_state_wf)

lemma state_wf_new:
  "keypair_wf L kp \<Longrightarrow> state_wf L (pbft_state_new now (public_key_hex L kp) kp replicas config)"
  by (simp add: state_wf_def identity_ok_def watermarks_ok_def log_wf_def)

lemma process_message_state_wf:
  "process_message L now msg s = (r, s', es) \<Longrightarrow> crypto_ok L \<Longrightarrow> state_wf L s \<Longrightarrow> state_wf L s'"
  using wf_inv.trace_keeps process_message_trace [OF _ UNIV_I] by blast

lemma replica_step_state_wf:
  "replica_step L ev s = (r, s', es) \<Longrightarrow> crypto_ok L \<Longrightarrow> state_wf L s \<Longrightarrow> state_wf L s'"
  using wf_inv.trace_keeps replica_step_trace_all by blast

lemma replica_run_state_wf:
  "replica_run L evs s = (alive, s', es) \<Longrightarrow> crypto_ok L \<Longrightarrow> state_wf L s \<Longrightarrow> state_wf L s'"
  using wf_inv.trace_keeps replica_run_trace_all by blast

end
