(* ===== verification/Replica_Safety.thy ===== *)
theory Replica_Safety
  imports Replica_Invariants
begin

text \<open>
  Safety of one replica over whole runs: nothing panics, requests are executed at most once and
  only with quorums of verified votes, views and checkpoints only move forward, rejected messages
  change nothing, votes of one identifier count once.
\<close>

section \<open>Fixed fields\<close>

definition same_replica :: "('sk, 'vk) pbft_state \<Rightarrow> ('sk, 'vk) pbft_state \<Rightarrow> bool" where
  "same_replica s t \<longleftrightarrow>
     st_node_id t = st_node_id s \<and> st_keypair t = st_keypair s \<and>
     st_config t = st_config s \<and> st_replicas t = st_replicas s"

lemma atomic_same_replica: "atomic L M s es s' \<Longrightarrow> same_replica s s'"
  by (erule atomic.cases) (auto simp: same_replica_def)

interpretation fixed_inv: history_invariant "atomic L M" "\<lambda>s h. same_replica s0 s" for L M s0
  by unfold_locales (auto dest!: atomic_same_replica simp: same_replica_def)

definition ready :: "('sk, 'vk) pbft_state \<Rightarrow> bool" where
  "ready s \<longleftrightarrow> st_replicas s \<noteq> [] \<and> cf_checkpoint_interval (st_config s) \<noteq> 0"

lemma trace_same_replica: "etrace (atomic L M) s es s' \<Longrightarrow> same_replica s s'"
  by (rule fixed_inv.trace_keeps) (simp_all add: same_replica_def)

lemma trace_ready: "etrace (atomic L M) s es s' \<Longrightarrow> ready s \<Longrightarrow> ready s'"
  by (drule trace_same_replica) (simp add: ready_def same_replica_def)

lemma atomic_ready: "atomic L M s es s' \<Longrightarrow> ready s \<Longrightarrow> ready s'"
  by (drule atomic_same_replica) (simp add: ready_def same_replica_def)

section \<open>No handler panics\<close>

lemma try_checkpoint_Ok: "ready s \<Longrightarrow> fst (try_checkpoint L n s) = Ok ()"
  by (simp add: try_checkpoint_def try_checkpoint_section_def Let_def ready_def)

lemma fst_emit [simp]: "fst (emit es out) = fst out"
  by (cases out) simp

lemma try_advance_to_committed_Ok:
  assumes "ready s"
  shows "fst (try_advance_to_committed L n s) = Ok ()"
proof -
  obtain x t where x: "try_committed_section L n s = (x, t)" by fastforce
  then show ?thesis
  proof (cases rule: try_committed_section_cases [where M = UNIV])
    case (run req)
    have "ready t" using atomic_ready [OF run(2)] assms by simp
    with x run(1) show ?thesis
      by (simp add: try_advance_to_committed_def try_checkpoint_Ok)
  qed (use x in \<open>simp_all add: try_advance_to_committed_def\<close>)
qed

lemma try_advance_to_prepared_Ok:
  assumes "ready s" and "log_wf L s"
  shows "fst (try_advance_to_prepared L n s) = Ok ()"
proof -
  obtain x t where x: "try_prepared_section L n s = (x, t)" by fastforce
  then show ?thesis
  proof (cases rule: try_prepared_section_cases [where M = UNIV])
    case (panic inst)
    then have False
      using log_wfD [OF assms(2) panic(3)] by (auto simp: instance_wf_def proposal_wf_def)
    then show ?thesis ..
  next
    case (go cm)
    have "ready t" using atomic_ready [OF go(2)] assms(1) by simp
    with x go(1) show ?thesis
      by (simp add: try_advance_to_prepared_def try_advance_to_committed_Ok)
  qed (use x in \<open>simp_all add: try_advance_to_prepared_def\<close>)
qed

lemma atomic_log_wf: "atomic L M s es s' \<Longrightarrow> crypto_ok L \<Longrightarrow> state_wf L s \<Longrightarrow> log_wf L s'"
  by (drule (2) atomic_state_wf) (simp add: state_wf_def)

lemma handle_request_no_panic:
  assumes "crypto_ok L" "state_wf L s" "ready s"
  shows "fst (handle_request L now req s) \<noteq> Panic"
proof -
  obtain x t where x: "handle_request_section L now req s = (x, t)" by fastforce
  then show ?thesis
  proof (cases rule: handle_request_section_cases)
    case (propose n pp pr)
    have a: "atomic L UNIV s [Out (Broadcast (Consensus (PrePrepare pp))), Out (Broadcast (Consensus (Prepare pr)))] t"
      unfolding propose(5) by (rule atomic.propose [OF UNIV_I]) (use propose in simp_all)
    have "ready t" "log_wf L t"
      using atomic_log_wf [OF a] atomic_ready [OF a] assms by simp_all
    with x propose(1) show ?thesis
      by (simp add: handle_request_def try_advance_to_prepared_Ok)
  qed (use x assms in \<open>simp_all add: handle_request_def ready_def\<close>)
qed

lemma handle_pre_prepare_no_panic:
  assumes "crypto_ok L" "state_wf L s" "ready s"
  shows "fst (handle_pre_prepare L now pp s) \<noteq> Panic"
proof -
  obtain x t where x: "handle_pre_prepare_section L now pp s = (x, t)" by fastforce
  then show ?thesis
  proof (cases rule: handle_pre_prepare_section_cases)
    case (accept n pr)
    have a: "atomic L UNIV s [Out (Broadcast (Consensus (Prepare pr)))] t"
      unfolding accept(10) by (rule atomic.accept [OF UNIV_I]) (use accept in simp_all)
    have "ready t" "log_wf L t"
      using atomic_log_wf [OF a] atomic_ready [OF a] assms by simp_all
    with x accept(1) show ?thesis
      by (simp add: handle_pre_prepare_def try_advance_to_prepared_Ok)
  qed (use x assms in \<open>simp_all add: handle_pre_prepare_def ready_def\<close>)
qed

lemma handle_prepare_no_panic:
  assumes "crypto_ok L" "state_wf L s" "ready s"
  shows "fst (handle_prepare L now pr s) \<noteq> Panic"
proof -
  obtain x t where x: "handle_prepare_section L now pr s = (x, t)" by fastforce
  then show ?thesis
  proof (cases rule: handle_prepare_section_cases)
    case (add n inst)
    have a: "atomic L UNIV s [] t"
      unfolding add(9) by (rule add_prepare [OF UNIV_I]) (use add in simp_all)
    have "ready t" "log_wf L t"
      using atomic_log_wf [OF a] atomic_ready [OF a] assms by simp_all
    with x add(1) show ?thesis
      by (simp add: handle_prepare_def try_advance_to_prepared_Ok)
  qed (use x in \<open>simp_all add: handle_prepare_def\<close>)
qed

lemma handle_commit_no_panic:
  assumes "ready s"
  shows "fst (handle_commit L now cm s) \<noteq> Panic"
proof -
  obtain x t where x: "handle_commit_section L now cm s = (x, t)" by fastforce
  then show ?thesis
  proof (cases rule: handle_commit_section_cases)
    case (add n inst)
    have "ready t" using assms add(9) by (simp add: ready_def)
    with x add(1) show ?thesis by (simp add: handle_commit_def try_advance_to_committed_Ok)
  qed (use x in \<open>simp_all add: handle_commit_def\<close>)
qed

lemma view_handlers_no_panic:
  assumes "ready s"
  shows "fst (handle_view_change L vc s) \<noteq> Panic" "fst (start_view_change L s) \<noteq> Panic"
    "fst (check_timeout L now s) \<noteq> Panic" "fst (handle_new_view now nv s) \<noteq> Panic"
    "fst (handle_checkpoint cp s) \<noteq> Panic"
proof -
  show start: "fst (start_view_change L s) \<noteq> Panic"
    by (simp add: start_view_change_def Let_def)
  obtain r s' es where v: "handle_view_change L vc s = (r, s', es)" using prod_cases3 by blast
  then show "fst (handle_view_change L vc s) \<noteq> Panic"
    using assms v by (cases rule: handle_view_change_cases) (simp_all add: ready_def)
  obtain r s' es where c: "check_timeout L now s = (r, s', es)" using prod_cases3 by blast
  then show "fst (check_timeout L now s) \<noteq> Panic"
    using assms start c by (cases rule: check_timeout_cases) (simp_all add: ready_def)
qed (simp_all add: handle_new_view_def handle_checkpoint_def Let_def)

lemma replica_step_no_panic:
  assumes "crypto_ok L" "state_wf L s" "ready s"
  shows "fst (replica_step L ev s) \<noteq> Panic"
proof (cases ev)
  case (Receive now msg)
  then show ?thesis
    using assms handle_request_no_panic [OF assms] handle_pre_prepare_no_panic [OF assms]
      handle_prepare_no_panic [OF assms] handle_commit_no_panic view_handlers_no_panic
    by (cases msg) (simp_all add: replica_step_def process_message_def)
qed (simp_all add: replica_step_def view_handlers_no_panic assms)

lemma replica_run_alive:
  assumes "crypto_ok L" "state_wf L s" "ready s"
  shows "fst (replica_run L evs s)"
  using assms(2,3)
proof (induction evs arbitrary: s)
  case Nil
  then show ?case by simp
next
  case (Cons ev evs)
  obtain r t es where st: "replica_step L ev s = (r, t, es)" using prod_cases3 by blast
  then have "state_wf L t" "ready t" "r \<noteq> Panic"
    using replica_step_state_wf [OF st assms(1)] trace_ready [OF replica_step_trace_all [OF st]]
      replica_step_no_panic [OF assms(1), of s ev] Cons.prems by auto
  with Cons.IH [of t] st show ?case
    by (cases r) (auto split: prod.splits)
qed

section \<open>Execution history\<close>

fun executed_requests :: "effect list \<Rightarrow> request list" where
  "executed_requests [] = []"
| "executed_requests (Committed_Request req # es) = req # executed_requests es"
| "executed_requests (Out _ # es) = executed_requests es"

lemma executed_requests_append [simp]:
  "executed_requests (es @ fs) = executed_requests es @ executed_requests fs"
  by (induction es rule: executed_requests.induct) simp_all

lemma set_executed_requests: "set (executed_requests es) = {req. Committed_Request req \<in> set es}"
  by (induction es rule: executed_requests.induct) auto

definition executed_once ::
  "('sk, 'vk) crypto_lib \<Rightarrow> hash set \<Rightarrow> ('sk, 'vk) pbft_state \<Rightarrow> effect list \<Rightarrow> bool" where
  "executed_once L ex0 s h \<longleftrightarrow>
     distinct (map (request_digest L) (executed_requests h)) \<and>
     ex0 \<inter> request_digest L ` set (executed_requests h) = {} \<and>
     st_executed s = ex0 \<union> request_digest L ` set (executed_requests h)"

lemma atomic_executed_once:
  "executed_once L ex0 s h \<Longrightarrow> atomic L M s es s' \<Longrightarrow> executed_once L ex0 s' (h @ es)"
  by (erule atomic.cases) (auto simp: executed_once_def)

interpretation once_inv: history_invariant "atomic L M" "executed_once L ex0" for L M ex0
  by unfold_locales (rule atomic_executed_once)

section \<open>Forward movement\<close>

definition forward_of :: "('sk, 'vk) pbft_state \<Rightarrow> ('sk, 'vk) pbft_state \<Rightarrow> bool" where
  "forward_of s t \<longleftrightarrow>
     st_view s \<le> st_view t \<and> st_stable_checkpoint s \<le> st_stable_checkpoint t \<and>
     st_executed s \<subseteq> st_executed t"

lemma atomic_forward: "forward_of s0 s \<Longrightarrow> atomic L M s es s' \<Longrightarrow> forward_of s0 s'"
  by (erule atomic.cases) (auto simp: forward_of_def)

interpretation forward_inv: history_invariant "atomic L M" "\<lambda>s h. forward_of s0 s" for L M s0
  by unfold_locales (rule atomic_forward)

section \<open>Where executed requests come from\<close>

definition has_committed :: "('sk, 'vk) pbft_state \<Rightarrow> request \<Rightarrow> bool" where
  "has_committed s req \<longleftrightarrow>
     (\<exists>n inst. hm_get (st_log s) n = Some inst \<and> ci_phase inst = Committed \<and> ci_request inst = Some req)"

lemma atomic_has_committed:
  "atomic L M s es s' \<Longrightarrow> Committed_Request req \<in> set es \<Longrightarrow> has_committed s' req"
  by (erule atomic.cases) (auto simp: has_committed_def)

lemma try_advance_to_committed_source:
  assumes "try_advance_to_committed L n s = (r, s', es)" and "Committed_Request req \<in> set es"
  shows "has_committed s' req"
proof -
  obtain x t where x: "try_committed_section L n s = (x, t)" by fastforce
  then show ?thesis
  proof (cases rule: try_committed_section_cases [where M = UNIV])
    case (run q)
    from x run(1) assms(1) obtain fs where c: "try_checkpoint L n t = (r, s', fs)"
      and es: "es = Committed_Request q # fs"
      by (auto simp: try_advance_to_committed_def emit_eq_iff)
    then have "s' = t" and "Committed_Request req \<notin> set fs"
      by (auto elim: try_checkpoint_cases)
    with es assms(2) run(2) show ?thesis by (auto intro: atomic_has_committed)
  qed (use x assms in \<open>auto simp: try_advance_to_committed_def\<close>)
qed

lemma try_advance_to_prepared_source:
  assumes "try_advance_to_prepared L n s = (r, s', es)" and "Committed_Request req \<in> set es"
  shows "has_committed s' req"
proof -
  obtain x t where x: "try_prepared_section L n s = (x, t)" by fastforce
  then show ?thesis
  proof (cases rule: try_prepared_section_cases [where M = UNIV])
    case (go cm)
    with x assms show ?thesis
      by (auto simp: try_advance_to_prepared_def emit_eq_iff dest: try_advance_to_committed_source)
  qed (use x assms in \<open>auto simp: try_advance_to_prepared_def\<close>)
qed

lemmas advance_sources = try_advance_to_committed_source try_advance_to_prepared_source

lemma handle_request_source:
  "handle_request L now q s = (r, s', es) \<Longrightarrow> Committed_Request req \<in> set es \<Longrightarrow> has_committed s' req"
  by (auto simp: handle_request_def emit_eq_iff dest: advance_sources
      split: prod.splits request_step.splits)

lemma handle_pre_prepare_source:
  "handle_pre_prepare L now pp s = (r, s', es) \<Longrightarrow> Committed_Request req \<in> set es \<Longrightarrow> has_committed s' req"
  by (auto simp: handle_pre_prepare_def emit_eq_iff dest: advance_sources
      split: prod.splits section_result.splits)

lemma handle_vote_source:
  "handle_prepare L now pr s = (r, s', es) \<Longrightarrow> Committed_Request req \<in> set es \<Longrightarrow> has_committed s' req"
  "handle_commit L now cm s = (r, s', es) \<Longrightarrow> Committed_Request req \<in> set es \<Longrightarrow> has_committed s' req"
  by (auto simp: handle_prepare_def handle_commit_def dest: advance_sources
      split: prod.splits section_result.splits)

lemma other_handlers_execute_nothing:
  "handle_view_change L vc s = (r, s', es) \<Longrightarrow> Committed_Request req \<notin> set es"
  "handle_new_view now nv s = (r, s', es) \<Longrightarrow> Committed_Request req \<notin> set es"
  "handle_checkpoint cp s = (r, s', es) \<Longrightarrow> Committed_Request req \<notin> set es"
  "start_view_change L s = (r, s', es) \<Longrightarrow> Committed_Request req \<notin> set es"
  "check_timeout L now s = (r, s', es) \<Longrightarrow> Committed_Request req \<notin> set es"
  by (auto elim!: handle_view_change_cases handle_new_view_cases handle_checkpoint_cases
      start_view_change_cases check_timeout_cases)

lemma replica_step_source:
  assumes "replica_step L ev s = (r, s', es)" and "Committed_Request req \<in> set es"
  shows "has_committed s' req"
proof (cases ev)
  case (Receive now msg)
  with assms show ?thesis
    by (cases msg) (auto simp: replica_step_def process_message_def
        dest: handle_request_source handle_pre_prepare_source handle_vote_source
          other_handlers_execute_nothing)
qed (use assms in \<open>auto simp: replica_step_def dest: other_handlers_execute_nothing\<close>)

section \<open>Certificates\<close>

definition prepare_voters :: "('sk, 'vk) crypto_lib \<Rightarrow> sequence_number \<Rightarrow> consensus_instance \<Rightarrow> node_id set" where
  "prepare_voters L n inst = {i. \<exists>pr. hm_get (ci_prepares inst) i = Some pr \<and> valid_prepare L n i pr}"

definition commit_voters :: "('sk, 'vk) crypto_lib \<Rightarrow> sequence_number \<Rightarrow> consensus_instance \<Rightarrow> node_id set" where
  "commit_voters L n inst = {i. \<exists>cm. hm_get (ci_commits inst) i = Some cm \<and> valid_commit L n i cm}"

lemma voters_len:
  assumes "votes_wf L n inst"
  shows "card (prepare_voters L n inst) = hm_len (ci_prepares inst)"
    and "card (commit_voters L n inst) = hm_len (ci_commits inst)"
proof -
  have "prepare_voters L n inst = hm_keys (ci_prepares inst)"
    "commit_voters L n inst = hm_keys (ci_commits inst)"
    using assms by (auto simp: prepare_voters_def commit_voters_def votes_wf_def hm_keys_def)
  then show "card (prepare_voters L n inst) = hm_len (ci_prepares inst)"
    "card (commit_voters L n inst) = hm_len (ci_commits inst)"
    by (simp_all add: hm_len_card)
qed

lemma instance_certificates:
  assumes "instance_wf L q ex n inst"
  shows "ci_phase inst = Prepared \<or> ci_phase inst = Committed \<Longrightarrow> q \<le> card (prepare_voters L n inst)"
    and "ci_phase inst = Committed \<Longrightarrow> q \<le> card (commit_voters L n inst)"
    and "ci_phase inst \<noteq> Idle \<Longrightarrow> \<exists>pp. ci_pre_prepare inst = Some pp \<and> pp_sequence pp = n \<and>
      ci_digest inst = Some (pp_digest pp) \<and> ci_request inst = Some (pp_request pp) \<and>
      request_digest L (pp_request pp) = pp_digest pp"
  using assms voters_len [of L n inst]
  by (auto simp: instance_wf_def phase_wf_def proposal_wf_def split: option.splits)

section \<open>Errors\<close>

lemma advance_not_Err:
  "fst (try_advance_to_committed L n s) \<noteq> Err e"
  "fst (try_advance_to_prepared L n s) \<noteq> Err e"
proof -
  have c: "fst (try_checkpoint L n s) \<noteq> Err e" for s
    by (simp add: try_checkpoint_def try_checkpoint_section_def Let_def)
  show k: "fst (try_advance_to_committed L n s) \<noteq> Err e" for s
  proof -
    obtain x t where x: "try_committed_section L n s = (x, t)" by fastforce
    then show ?thesis
      by (cases rule: try_committed_section_cases [where M = UNIV]) (use x c in \<open>auto simp: try_advance_to_committed_def\<close>)
  qed
  show "fst (try_advance_to_prepared L n s) \<noteq> Err e"
  proof -
    obtain x t where x: "try_prepared_section L n s = (x, t)" by fastforce
    then show ?thesis
      by (cases rule: try_prepared_section_cases [where M = UNIV]) (use x k in \<open>auto simp: try_advance_to_prepared_def\<close>)
  qed
qed

lemma advance_ErrD:
  "try_advance_to_committed L n s = (Err e, s', es) \<Longrightarrow> False"
  "try_advance_to_prepared L n s = (Err e, s', es) \<Longrightarrow> False"
  using advance_not_Err [of L n s e] by auto

lemma handle_request_Err:
  assumes "handle_request L now req s = (Err e, s', es)"
  shows "es = [] \<and> e = InvalidSequence \<and> s' = s\<lparr>st_sequence := st_sequence s + 1\<rparr> \<and>
    primary s = Some (st_node_id s) \<and> st_high_watermark s < st_sequence s + 1"
proof -
  obtain x t where x: "handle_request_section L now req s = (x, t)" by fastforce
  then show ?thesis
    by (cases rule: handle_request_section_cases)
      (use x assms in \<open>auto simp: handle_request_def emit_eq_iff dest: advance_ErrD\<close>)
qed

lemma handle_pre_prepare_Err:
  assumes "handle_pre_prepare L now pp s = (Err e, s', es)"
  shows "s' = s \<and> es = []"
proof -
  obtain x t where x: "handle_pre_prepare_section L now pp s = (x, t)" by fastforce
  then show ?thesis
    by (cases rule: handle_pre_prepare_section_cases)
      (use x assms in \<open>auto simp: handle_pre_prepare_def emit_eq_iff dest: advance_ErrD\<close>)
qed

lemma handle_vote_Err:
  "handle_prepare L now pr s = (Err e, s', es) \<Longrightarrow> s' = s \<and> es = []"
  "handle_commit L now cm s = (Err e, s', es) \<Longrightarrow> s' = s \<and> es = []"
proof -
  assume a: "handle_prepare L now pr s = (Err e, s', es)"
  obtain x t where x: "handle_prepare_section L now pr s = (x, t)" by fastforce
  then show "s' = s \<and> es = []"
    by (cases rule: handle_prepare_section_cases)
      (use x a in \<open>auto simp: handle_prepare_def dest: advance_ErrD\<close>)
next
  assume a: "handle_commit L now cm s = (Err e, s', es)"
  obtain x t where x: "handle_commit_section L now cm s = (x, t)" by fastforce
  then show "s' = s \<and> es = []"
    by (cases rule: handle_commit_section_cases)
      (use x a in \<open>auto simp: handle_commit_def dest: advance_ErrD\<close>)
qed

lemma other_handlers_not_Err:
  "handle_view_change L vc s \<noteq> (Err e, s', es)" "handle_new_view now nv s \<noteq> (Err e, s', es)"
  "handle_checkpoint cp s \<noteq> (Err e, s', es)"
  by (auto elim: handle_view_change_cases handle_new_view_cases handle_checkpoint_cases)

section \<open>Recorded votes\<close>

definition prepare_recorded :: "sequence_number \<Rightarrow> node_id \<Rightarrow> ('sk, 'vk) pbft_state \<Rightarrow> bool" where
  "prepare_recorded n i s \<longleftrightarrow>
     (\<exists>inst. hm_get (st_log s) n = Some inst \<and> hm_get (ci_prepares inst) i \<noteq> None)"

definition commit_recorded :: "sequence_number \<Rightarrow> node_id \<Rightarrow> ('sk, 'vk) pbft_state \<Rightarrow> bool" where
  "commit_recorded n i s \<longleftrightarrow>
     (\<exists>inst. hm_get (st_log s) n = Some inst \<and> hm_get (ci_commits inst) i \<noteq> None)"

lemma try_advance_to_committed_recorded:
  assumes "try_advance_to_committed L n s = (r, s', es)"
  shows "prepare_recorded m i s \<Longrightarrow> prepare_recorded m i s'"
    and "commit_recorded m i s \<Longrightarrow> commit_recorded m i s'"
  using assms
  by (auto simp: try_advance_to_committed_def try_committed_section_def Let_def emit_eq_iff
      prepare_recorded_def commit_recorded_def
      elim!: try_checkpoint_cases split: prod.splits option.splits if_splits)

lemma try_advance_to_prepared_recorded:
  assumes "try_advance_to_prepared L n s = (r, s', es)"
  shows "prepare_recorded m i s \<Longrightarrow> prepare_recorded m i s'"
proof -
  assume p: "prepare_recorded m i s"
  obtain x t where x: "try_prepared_section L n s = (x, t)" by fastforce
  with p have "prepare_recorded m i t"
    by (auto simp: try_prepared_section_def prepare_recorded_def Let_def split: option.splits if_splits)
  with x assms show ?thesis
    by (auto simp: try_advance_to_prepared_def emit_eq_iff
        dest: try_advance_to_committed_recorded(1) split: section_result.splits)
qed

lemma handle_prepare_records:
  assumes "handle_prepare L now pr s = (Ok (), s', es)"
  shows "prepare_recorded (pr_sequence pr) (pr_replica_id pr) s'"
proof -
  obtain x t where x: "handle_prepare_section L now pr s = (x, t)" by fastforce
  then show ?thesis
  proof (cases rule: handle_prepare_section_cases)
    case (add n inst)
    then have "prepare_recorded (pr_sequence pr) (pr_replica_id pr) t"
      by (simp add: prepare_recorded_def)
    with x add(1) assms show ?thesis
      by (auto simp: handle_prepare_def dest: try_advance_to_prepared_recorded)
  qed (use x assms in \<open>auto simp: handle_prepare_def prepare_recorded_def\<close>)
qed

lemma handle_commit_records:
  assumes "handle_commit L now cm s = (Ok (), s', es)"
  shows "commit_recorded (cm_sequence cm) (cm_replica_id cm) s'"
proof -
  obtain x t where x: "handle_commit_section L now cm s = (x, t)" by fastforce
  then show ?thesis
  proof (cases rule: handle_commit_section_cases)
    case (add n inst)
    then have "commit_recorded (cm_sequence cm) (cm_replica_id cm) t"
      by (simp add: commit_recorded_def)
    with x add(1) assms show ?thesis
      by (auto simp: handle_commit_def dest: try_advance_to_committed_recorded(2))
  qed (use x assms in \<open>auto simp: handle_commit_def commit_recorded_def\<close>)
qed

lemma recorded_vote_inert:
  "prepare_recorded (pr_sequence pr) (pr_replica_id pr) s \<Longrightarrow> \<exists>r. handle_prepare L now pr s = (r, s, [])"
  "commit_recorded (cm_sequence cm) (cm_replica_id cm) s \<Longrightarrow> \<exists>r. handle_commit L now cm s = (r, s, [])"
proof -
  assume p: "prepare_recorded (pr_sequence pr) (pr_replica_id pr) s"
  obtain x t where x: "handle_prepare_section L now pr s = (x, t)" by fastforce
  then show "\<exists>r. handle_prepare L now pr s = (r, s, [])"
    by (cases rule: handle_prepare_section_cases)
      (use x p in \<open>auto simp: handle_prepare_def prepare_recorded_def instance_at_def\<close>)
next
  assume p: "commit_recorded (cm_sequence cm) (cm_replica_id cm) s"
  obtain x t where x: "handle_commit_section L now cm s = (x, t)" by fastforce
  then show "\<exists>r. handle_commit L now cm s = (r, s, [])"
    by (cases rule: handle_commit_section_cases)
      (use x p in \<open>auto simp: handle_commit_def commit_recorded_def instance_at_def\<close>)
qed

end
