(* ===== verification/Scenarios.thy ===== *)
theory Scenarios
  imports Replica_Safety
begin

text \<open>
  Concrete replicas on the toy library of \<open>Crypto\<close>, at which the properties are evaluated: a
  system of one replica, and the members of a system of four. The signed messages are those that
  the handlers build, written for any library.
\<close>

section \<open>Signed messages\<close>

definition signed_pre_prepare ::
  "('sk, 'vk) crypto_lib \<Rightarrow> ('sk, 'vk) keypair \<Rightarrow> view_number \<Rightarrow> sequence_number \<Rightarrow> request \<Rightarrow> pre_prepare" where
  "signed_pre_prepare L kp v n req =
     \<lparr>pp_view = v, pp_sequence = n, pp_digest = request_digest L req, pp_request = req,
      pp_primary_id = public_key_hex L kp,
      pp_signature = keypair_sign L kp (as_bytes (prepare_sign_data v n (request_digest L req)))\<rparr>"

definition signed_prepare ::
  "('sk, 'vk) crypto_lib \<Rightarrow> ('sk, 'vk) keypair \<Rightarrow> view_number \<Rightarrow> sequence_number \<Rightarrow> hash \<Rightarrow> prepare" where
  "signed_prepare L kp v n d =
     \<lparr>pr_view = v, pr_sequence = n, pr_digest = d, pr_replica_id = public_key_hex L kp,
      pr_signature = keypair_sign L kp (as_bytes (prepare_sign_data v n d))\<rparr>"

definition signed_commit ::
  "('sk, 'vk) crypto_lib \<Rightarrow> ('sk, 'vk) keypair \<Rightarrow> view_number \<Rightarrow> sequence_number \<Rightarrow> hash \<Rightarrow> commit" where
  "signed_commit L kp v n d =
     \<lparr>cm_view = v, cm_sequence = n, cm_digest = d, cm_replica_id = public_key_hex L kp,
      cm_signature = keypair_sign L kp (as_bytes (commit_sign_data v n d))\<rparr>"

lemma signed_sel [simp]:
  "pp_view (signed_pre_prepare L kp v n req) = v"
  "pp_sequence (signed_pre_prepare L kp v n req) = n"
  "pp_digest (signed_pre_prepare L kp v n req) = request_digest L req"
  "pp_request (signed_pre_prepare L kp v n req) = req"
  "pp_primary_id (signed_pre_prepare L kp v n req) = public_key_hex L kp"
  "pr_view (signed_prepare L kp v n d) = v" "pr_sequence (signed_prepare L kp v n d) = n"
  "pr_digest (signed_prepare L kp v n d) = d"
  "pr_replica_id (signed_prepare L kp v n d) = public_key_hex L kp"
  "cm_view (signed_commit L kp v n d) = v" "cm_sequence (signed_commit L kp v n d) = n"
  "cm_digest (signed_commit L kp v n d) = d"
  "cm_replica_id (signed_commit L kp v n d) = public_key_hex L kp"
  by (simp_all add: signed_pre_prepare_def signed_prepare_def signed_commit_def)

lemma signed_verifies [simp]:
  assumes "crypto_ok L" and "keypair_wf L kp"
  shows "verify_node_signature L (public_key_hex L kp)
      (as_bytes (prepare_sign_data v n (request_digest L req)))
      (pp_signature (signed_pre_prepare L kp v n req))"
    and "verify_node_signature L (public_key_hex L kp) (as_bytes (prepare_sign_data v n d))
      (pr_signature (signed_prepare L kp v n d))"
    and "verify_node_signature L (public_key_hex L kp) (as_bytes (commit_sign_data v n d))
      (cm_signature (signed_commit L kp v n d))"
  using verify_own_node_signature [OF assms]
  by (simp_all add: signed_pre_prepare_def signed_prepare_def signed_commit_def)

section \<open>Toy replicas\<close>

definition toy_keypair :: "byte \<Rightarrow> (byte, byte) keypair" where
  "toy_keypair b = keypair_from_seed toy_lib (b # replicate 31 0)"

definition toy_id :: "byte \<Rightarrow> node_id" where
  "toy_id b = public_key_hex toy_lib (toy_keypair b)"

lemma toy_keypair_wf [simp]: "keypair_wf toy_lib (toy_keypair b)"
  by (simp add: toy_keypair_def)

lemma toy_id_inject [simp]: "toy_id a = toy_id b \<longleftrightarrow> a = b"
proof
  assume "toy_id a = toy_id b"
  then have "toy_hex_encode (pad32 [a]) = toy_hex_encode (pad32 [b])"
    by (simp add: toy_id_def public_key_hex_def public_key_bytes_def toy_keypair_def
        keypair_from_seed_def toy_lib_def)
  then have "toy_hex_decode (toy_hex_encode (pad32 [a])) = toy_hex_decode (toy_hex_encode (pad32 [b]))"
    by (rule arg_cong)
  then have "pad32 [a] = pad32 [b]" by (simp only: toy_hex_roundtrip option.inject)
  then show "a = b" by (simp add: pad32_single)
qed simp

lemma public_key_hex_toy [simp]: "public_key_hex toy_lib (toy_keypair b) = toy_id b"
  by (simp add: toy_id_def)

declare toy_lib_ok [simp]

lemma toy_verifies [simp]:
  "verify_node_signature toy_lib (toy_id b) (as_bytes (prepare_sign_data v n (request_digest toy_lib req)))
      (pp_signature (signed_pre_prepare toy_lib (toy_keypair b) v n req))"
  "verify_node_signature toy_lib (toy_id b) (as_bytes (prepare_sign_data v n d))
      (pr_signature (signed_prepare toy_lib (toy_keypair b) v n d))"
  "verify_node_signature toy_lib (toy_id b) (as_bytes (commit_sign_data v n d))
      (cm_signature (signed_commit toy_lib (toy_keypair b) v n d))"
  using signed_verifies [OF toy_lib_ok toy_keypair_wf, of b] by simp_all

definition solo :: "(byte, byte) pbft_state" where
  "solo = pbft_state_new 0 (toy_id 0) (toy_keypair 0) [toy_id 0] (pbft_config_new 1)"

definition member :: "byte \<Rightarrow> (byte, byte) pbft_state" where
  "member b = pbft_state_new 0 (toy_id b) (toy_keypair b) (map toy_id [0, 1, 2, 3]) (pbft_config_new 4)"

definition sample_request :: request where
  "sample_request = \<lparr>rq_client_id = ''c'', rq_timestamp = 7, rq_operation = [1, 2]\<rparr>"

definition sample_digest :: hash where
  "sample_digest = request_digest toy_lib sample_request"

definition other_request :: request where
  "other_request = \<lparr>rq_client_id = ''c'', rq_timestamp = 7, rq_operation = [3]\<rparr>"

definition other_digest :: hash where
  "other_digest = request_digest toy_lib other_request"

lemma other_digest_neq: "other_digest \<noteq> sample_digest" "sample_digest \<noteq> other_digest"
  by (simp_all add: other_digest_def sample_digest_def other_request_def sample_request_def request_digest_def
      request_preimage_def toy_lib_def toy_hash_def pad32_def as_bytes_def)

lemma toy_config [simp]:
  "quorum (pbft_config_new 1) = 1" "quorum (pbft_config_new 4) = 3"
  "cf_checkpoint_interval (pbft_config_new n) = 100"
  by (simp_all add: quorum_def pbft_config_new_def)

text \<open>The definitions of the handlers, for evaluating them.\<close>

lemmas run_defs =
  replica_step_def process_message_def handle_request_def handle_request_section_def primary_def
  primary_of_def Let_def get_or_create_instance_eq try_advance_to_prepared_def
  try_prepared_section_def try_advance_to_committed_def try_committed_section_def
  try_checkpoint_def try_checkpoint_section_def emit_def handle_pre_prepare_def
  handle_pre_prepare_section_def handle_prepare_def handle_prepare_section_def handle_commit_def
  handle_commit_section_def hm_contains_key_def

lemma solo_step:
  "\<exists>s es inst. replica_step toy_lib (Receive 5 (Request sample_request)) solo = (Ok (), s, es) \<and>
     hm_get (st_log s) 1 = Some inst \<and> ci_phase inst = Committed \<and>
     Committed_Request sample_request \<in> set es"
  by (simp add: solo_def run_defs)

lemma solo_commits:
  "\<exists>s es inst. replica_run toy_lib [Receive 5 (Request sample_request)] solo = (True, s, es) \<and>
     hm_get (st_log s) 1 = Some inst \<and> ci_phase inst = Committed \<and>
     Committed_Request sample_request \<in> set es"
proof -
  obtain s es inst where st: "replica_step toy_lib (Receive 5 (Request sample_request)) solo = (Ok (), s, es)"
    and rest: "hm_get (st_log s) 1 = Some inst" "ci_phase inst = Committed"
      "Committed_Request sample_request \<in> set es"
    using solo_step by blast
  have "replica_run toy_lib [Receive 5 (Request sample_request)] solo = (True, s, es)"
    by (simp add: st)
  with rest show ?thesis by blast
qed

lemma solo_eq:
  "solo = pbft_state_new 0 (public_key_hex toy_lib (toy_keypair 0)) (toy_keypair 0) [toy_id 0]
     (pbft_config_new 1)"
  by (simp add: solo_def)

lemma member_eq:
  "member b = pbft_state_new 0 (public_key_hex toy_lib (toy_keypair b)) (toy_keypair b)
     (map toy_id [0, 1, 2, 3]) (pbft_config_new 4)"
  by (simp add: member_def)

end
