(* ===== verification/Replica_Properties.thy ===== *)
theory Replica_Properties
  imports Scenarios
begin

text \<open>
  What one replica promises over every run: the properties of \<open>src/pbft.rs\<close> that need no
  assumption on the other replicas, each with a concrete run at which it is applied.
\<close>

text \<open>
  C7. In every state that a replica can reach, an entry of its log beyond \<open>Idle\<close> holds a
  pre-prepare for that sequence number whose digest is the hash of the stored request; a prepared
  entry has verified prepares of a quorum of distinct identifiers, a committed entry has verified
  commits of a quorum as well, and its digest is marked as executed. The water marks follow the
  stable checkpoint.
\<close>

theorem replica_log_certified:
  assumes "crypto_ok L" and "keypair_wf L kp"
    and "replica_run L evs (pbft_state_new now (public_key_hex L kp) kp replicas config) = (alive, s, es)"
  shows "st_low_watermark s = st_stable_checkpoint s \<and>
    st_high_watermark s = st_low_watermark s + cf_checkpoint_interval config * 2 \<and>
    (\<forall>n inst. hm_get (st_log s) n = Some inst \<longrightarrow>
      (ci_phase inst \<noteq> Idle \<longrightarrow> (\<exists>pp. ci_pre_prepare inst = Some pp \<and> pp_sequence pp = n \<and>
         ci_digest inst = Some (pp_digest pp) \<and> ci_request inst = Some (pp_request pp) \<and>
         request_digest L (pp_request pp) = pp_digest pp)) \<and>
      (ci_phase inst = Prepared \<or> ci_phase inst = Committed \<longrightarrow>
         unat (quorum config) \<le> card (prepare_voters L n inst)) \<and>
      (ci_phase inst = Committed \<longrightarrow>
         unat (quorum config) \<le> card (commit_voters L n inst) \<and>
         (\<exists>d \<in> st_executed s. ci_digest inst = Some d)))"
proof -
  have wf: "state_wf L s" and c: "st_config s = config"
    using replica_run_state_wf [OF assms(3,1) state_wf_new [OF assms(2)]]
      trace_same_replica [OF replica_run_trace_all [OF assms(3)]] by (simp_all add: same_replica_def)
  then have marks: "st_low_watermark s = st_stable_checkpoint s"
    "st_high_watermark s = st_low_watermark s + cf_checkpoint_interval config * 2"
    by (simp_all add: state_wf_def watermarks_ok_def)
  have i: "instance_wf L (unat (quorum config)) (st_executed s) n inst"
    if "hm_get (st_log s) n = Some inst" for n inst
    using that wf c by (auto simp: state_wf_def state_quorum_def dest: log_wfD)
  have ex: "\<exists>d \<in> st_executed s. ci_digest inst = Some d"
    if "hm_get (st_log s) n = Some inst" "ci_phase inst = Committed" for n inst
    using i [OF that(1)] that(2) instance_certificates(3) [OF i [OF that(1)]]
    by (auto simp: instance_wf_def phase_wf_def)
  show ?thesis using marks instance_certificates [OF i] ex by blast
qed

theorem replica_log_certified_witness:
  "\<exists>s es inst. replica_run toy_lib [Receive 5 (Request sample_request)] solo = (True, s, es) \<and>
     hm_get (st_log s) 1 = Some inst \<and> ci_phase inst = Committed \<and>
     1 \<le> card (prepare_voters toy_lib 1 inst) \<and> 1 \<le> card (commit_voters toy_lib 1 inst)"
proof -
  obtain s es inst where r: "replica_run toy_lib [Receive 5 (Request sample_request)] solo = (True, s, es)"
    and i: "hm_get (st_log s) 1 = Some inst" "ci_phase inst = Committed"
    using solo_commits by blast
  from replica_log_certified [OF toy_lib_ok toy_keypair_wf r [unfolded solo_eq]] i
  have "1 \<le> card (prepare_voters toy_lib 1 inst) \<and> 1 \<le> card (commit_voters toy_lib 1 inst)"
    by simp
  with r i show ?thesis by blast
qed

text \<open>
  C12. A replica built from a non-empty replica list never panics: whatever messages, timer ticks
  and view-change requests it processes, in whatever order, the run goes on. (The division by the
  number of replicas, the remainder by the checkpoint interval and the \<open>unwrap\<close>s of the
  handlers are the places where it could.)
\<close>

theorem replica_never_panics:
  assumes "crypto_ok L" and "keypair_wf L kp" and "replicas \<noteq> []"
  shows "fst (replica_run L evs
    (pbft_state_new now (public_key_hex L kp) kp replicas (pbft_config_new n)))"
  using assms by (intro replica_run_alive state_wf_new) (simp_all add: ready_def)

theorem replica_never_panics_witness:
  "fst (replica_run toy_lib [Receive 5 (Request sample_request), Timer 9] (member 2))"
  unfolding member_eq by (rule replica_never_panics) (simp_all del: public_key_hex_toy)

text \<open>
  C11. Over a whole run from the initial state no request digest is executed twice, and the
  replica's set of executed digests is exactly the digests of the requests it delivered.
\<close>

theorem requests_executed_at_most_once:
  "case replica_run L evs (pbft_state_new now nid kp replicas config) of (alive, s, es) \<Rightarrow>
     distinct (map (request_digest L) (executed_requests es)) \<and>
     st_executed s = request_digest L ` set (executed_requests es)"
proof -
  obtain alive s es
    where r: "replica_run L evs (pbft_state_new now nid kp replicas config) = (alive, s, es)"
    using prod_cases3 by blast
  have "executed_once L {} s es"
    by (rule once_inv.trace_from_start [OF replica_run_trace_all [OF r]]) (simp add: executed_once_def)
  with r show ?thesis by (simp add: executed_once_def)
qed

text \<open>
  C17. The view and the stable checkpoint never decrease, executed digests are never forgotten, and
  the identity, key, configuration and replica list never change.
\<close>

theorem replica_moves_forward:
  "case replica_run L evs s of (alive, s', es) \<Rightarrow>
     st_view s \<le> st_view s' \<and> st_stable_checkpoint s \<le> st_stable_checkpoint s' \<and>
     st_executed s \<subseteq> st_executed s' \<and> st_node_id s' = st_node_id s \<and>
     st_keypair s' = st_keypair s \<and> st_config s' = st_config s \<and> st_replicas s' = st_replicas s"
proof -
  obtain alive s' es where r: "replica_run L evs s = (alive, s', es)" using prod_cases3 by blast
  have "forward_of s s'"
    by (rule forward_inv.trace_from_start [OF replica_run_trace_all [OF r]])
      (simp add: forward_of_def)
  with r trace_same_replica [OF replica_run_trace_all [OF r]] show ?thesis
    by (simp add: forward_of_def same_replica_def)
qed

text \<open>
  C9. When a step of a running replica delivers a request, its log holds a committed entry for
  that request, with verified prepares and verified commits of a quorum of identifiers.
\<close>

theorem execution_has_certificate:
  assumes "crypto_ok L" and "keypair_wf L kp"
    and "replica_run L evs (pbft_state_new now (public_key_hex L kp) kp replicas config) = (True, s, h)"
    and "replica_step L ev s = (r, s', es)" and "Committed_Request req \<in> set es"
  shows "\<exists>n inst pp. hm_get (st_log s') n = Some inst \<and> ci_phase inst = Committed \<and>
    ci_request inst = Some req \<and> ci_pre_prepare inst = Some pp \<and> pp_sequence pp = n \<and>
    pp_request pp = req \<and> pp_digest pp = request_digest L req \<and>
    unat (quorum config) \<le> card (prepare_voters L n inst) \<and>
    unat (quorum config) \<le> card (commit_voters L n inst)"
proof -
  have "state_wf L s'"
    using replica_step_state_wf [OF assms(4,1)]
      replica_run_state_wf [OF assms(3,1) state_wf_new [OF assms(2)]] by blast
  moreover have "st_config s' = config"
    using trace_same_replica [OF replica_run_trace_all [OF assms(3)]]
      trace_same_replica [OF replica_step_trace_all [OF assms(4)]] by (simp add: same_replica_def)
  moreover obtain n inst where i: "hm_get (st_log s') n = Some inst" "ci_phase inst = Committed"
      "ci_request inst = Some req"
    using replica_step_source [OF assms(4,5)] by (auto simp: has_committed_def)
  ultimately have w: "instance_wf L (unat (quorum config)) (st_executed s') n inst"
    by (auto simp: state_wf_def state_quorum_def dest: log_wfD)
  from instance_certificates [OF w] i show ?thesis by fastforce
qed

theorem execution_has_certificate_witness:
  "\<exists>s es n inst. replica_step toy_lib (Receive 5 (Request sample_request)) solo = (Ok (), s, es) \<and>
     hm_get (st_log s) n = Some inst \<and> ci_phase inst = Committed \<and>
     ci_request inst = Some sample_request \<and> 1 \<le> card (commit_voters toy_lib n inst)"
proof -
  obtain s es where st: "replica_step toy_lib (Receive 5 (Request sample_request)) solo = (Ok (), s, es)"
    and c: "Committed_Request sample_request \<in> set es"
    using solo_step by blast
  have "replica_run toy_lib []
      (pbft_state_new 0 (public_key_hex toy_lib (toy_keypair 0)) (toy_keypair 0) [toy_id 0] (pbft_config_new 1))
      = (True, solo, [])"
    by (simp add: solo_def)
  from execution_has_certificate [OF toy_lib_ok toy_keypair_wf this st c] st show ?thesis by auto
qed

text \<open>
  C18. A message that is rejected has no effect: nothing is sent or executed and the state is the
  old one, but for one case, a request at the primary beyond the high water mark, which uses up a
  sequence number.
\<close>

theorem rejected_message_changes_nothing:
  assumes "process_message L now msg s = (Err e, s', es)"
  shows "es = [] \<and>
    (s' = s \<or>
     (\<exists>req. msg = Request req \<and> e = InvalidSequence \<and> primary s = Some (st_node_id s) \<and>
        st_high_watermark s < st_sequence s + 1 \<and>
        s' = s\<lparr>st_sequence := st_sequence s + 1\<rparr>))"
  using assms
  by (cases msg)
    (auto simp: process_message_def other_handlers_not_Err
      dest: handle_request_Err handle_pre_prepare_Err handle_vote_Err)

theorem rejected_message_changes_nothing_witness:
  "process_message toy_lib 5 (Prepare (signed_prepare toy_lib (toy_keypair 1) 3 1 [])) (member 2)
     = (Err InvalidView, member 2, [])"
proof -
  obtain s es where p: "process_message toy_lib 5
      (Prepare (signed_prepare toy_lib (toy_keypair 1) 3 1 [])) (member 2) = (Err InvalidView, s, es)"
    by (simp add: process_message_def handle_prepare_def handle_prepare_section_def member_def)
  with rejected_message_changes_nothing [OF p] show ?thesis by simp
qed

text \<open>
  C19. One vote per identifier: once a prepare (or commit) of an identifier for a sequence number
  has been accepted, another prepare (commit) under that identifier and number that comes next, whatever
  it says, leaves the state as it is and sends nothing.
\<close>

theorem one_vote_per_identifier:
  "(handle_prepare L now pr s = (Ok (), s', es) \<longrightarrow>
      pr_sequence pr' = pr_sequence pr \<longrightarrow> pr_replica_id pr' = pr_replica_id pr \<longrightarrow>
      (\<exists>r. handle_prepare L now' pr' s' = (r, s', []))) \<and>
   (handle_commit L now cm s = (Ok (), s', es) \<longrightarrow>
      cm_sequence cm' = cm_sequence cm \<longrightarrow> cm_replica_id cm' = cm_replica_id cm \<longrightarrow>
      (\<exists>r. handle_commit L now' cm' s' = (r, s', [])))"
  by (metis handle_prepare_records handle_commit_records recorded_vote_inert)

theorem one_vote_per_identifier_witness:
  "\<exists>s es r. handle_prepare toy_lib 5 (signed_prepare toy_lib (toy_keypair 1) 0 1 []) (member 2) = (Ok (), s, es) \<and>
     handle_prepare toy_lib 6 (signed_prepare toy_lib (toy_keypair 1) 0 1 [1]) s = (r, s, [])"
proof -
  obtain s es where p: "handle_prepare toy_lib 5 (signed_prepare toy_lib (toy_keypair 1) 0 1 []) (member 2)
      = (Ok (), s, es)"
    using signed_verifies(2) [of toy_lib "toy_keypair 1" 0 1 "[]"]
    by (simp add: handle_prepare_def handle_prepare_section_def member_def Let_def
        get_or_create_instance_eq hm_contains_key_def try_advance_to_prepared_def try_prepared_section_def)
  with one_vote_per_identifier [of toy_lib 5 "signed_prepare toy_lib (toy_keypair 1) 0 1 []" "member 2" s es
      "signed_prepare toy_lib (toy_keypair 1) 0 1 [1]" 6 undefined undefined] show ?thesis by auto
qed

end
