(* ===== verification/Quorums.thy ===== *)
theory Quorums
  imports Replica_State
begin

text \<open>
  What the protocol needs of its quorum size, as a contract, and what \<open>PbftConfig::quorum\<close> gives:
  two quorums share a correct replica, and the correct replicas form a quorum, when the number of
  replicas is \<open>3 f + 1\<close>.
\<close>

locale quorum_rule =
  fixes q :: "nat \<Rightarrow> nat"
  assumes overlap: "n = 3 * f + 1 \<Longrightarrow> n < 2 ^ 64 \<Longrightarrow> n + f < 2 * q n"
    and available: "n = 3 * f + 1 \<Longrightarrow> n < 2 ^ 64 \<Longrightarrow> q n + f \<le> n"
begin

lemma common_correct:
  assumes "finite R" and "card R = 3 * f + 1" and "card R < 2 ^ 64" and "card (R - H) \<le> f"
    and "A \<subseteq> R" and "B \<subseteq> R" and "q (card R) \<le> card A" and "q (card R) \<le> card B"
  shows "\<exists>k. k \<in> A \<and> k \<in> B \<and> k \<in> H"
proof -
  have fin: "finite A" "finite B" using assms by (auto intro: finite_subset)
  have "card A + card B = card (A \<union> B) + card (A \<inter> B)" using fin by (rule card_Un_Int)
  moreover have "card (A \<union> B) \<le> card R" using assms by (intro card_mono) auto
  moreover have "card R + f < 2 * q (card R)" using overlap assms by blast
  ultimately have "card (R - H) < card (A \<inter> B)" using assms by linarith
  moreover have "card (A \<inter> B) \<le> card (R - H)" if "A \<inter> B \<subseteq> R - H"
    using that assms(1) by (intro card_mono) auto
  ultimately have "\<not> A \<inter> B \<subseteq> R - H" by linarith
  with assms(5) show ?thesis by blast
qed

lemma correct_quorum:
  assumes "finite R" and "card R = 3 * f + 1" and "card R < 2 ^ 64" and "card (R - H) \<le> f"
  shows "q (card R) \<le> card (R \<inter> H)"
proof -
  have "card R = card (R \<inter> H) + card (R - H)"
    using assms(1) by (metis card_Int_Diff)
  with available [OF assms(2,3)] assms(4) show ?thesis by linarith
qed

end

definition code_quorum :: "nat \<Rightarrow> nat" where
  "code_quorum n = unat (quorum (pbft_config_new (of_nat n)))"

lemma code_quorum_eq:
  assumes "0 < n" and "n < 2 ^ 64"
  shows "code_quorum n = 2 * ((n - 1) div 3) + 1"
    and "unat (cf_f (pbft_config_new (of_nat n))) = (n - 1) div 3"
proof -
  have u: "unat (of_nat n :: usize) = n" using assms(2) by (simp add: unat_of_nat)
  then have "(of_nat n :: usize) \<noteq> 0" using assms(1) by auto
  from unat_quorum [OF this] u
  show "code_quorum n = 2 * ((n - 1) div 3) + 1"
    and "unat (cf_f (pbft_config_new (of_nat n))) = (n - 1) div 3"
    by (simp_all add: code_quorum_def)
qed

interpretation pbft: quorum_rule code_quorum
  by unfold_locales (simp_all add: code_quorum_eq)

lemma interval_quorums:
  assumes "q \<le> n"
  shows "card ({0..<q} \<inter> {n - q..<n}) = 2 * q - (n :: nat)"
proof -
  have "{0..<q} \<inter> {n - q..<n} = {n - q..<q}" using assms by auto
  then have "card ({0..<q} \<inter> {n - q..<n}) = q - (n - q)" by (simp only: card_atLeastLessThan)
  with assms show ?thesis by simp
qed

text \<open>
  C13. For \<open>n\<close> replicas the configured quorum never exceeds \<open>n\<close>, and any two quorums share more
  than the tolerated number \<open>f\<close> of replicas exactly when \<open>n\<close> is of the form \<open>3 f + 1\<close>: with any
  other number of replicas (6, for one, where two quorums can even be disjoint) two quorums may
  have only faulty replicas in common.
\<close>

theorem quorums_overlap_iff:
  assumes "0 < n" and "n < 2 ^ 64"
  shows "code_quorum n \<le> n \<and>
    ((\<forall>A B. A \<subseteq> {0..<n} \<and> B \<subseteq> {0..<n} \<and> code_quorum n \<le> card A \<and> code_quorum n \<le> card B \<longrightarrow>
        unat (cf_f (pbft_config_new (of_nat n))) < card (A \<inter> B)) \<longleftrightarrow> n mod 3 = 1)"
proof (intro conjI iffI allI impI)
  let ?f = "unat (cf_f (pbft_config_new (of_nat n)))"
  note q = code_quorum_eq [OF assms]
  show le: "code_quorum n \<le> n" using q assms(1) by simp
  show "n mod 3 = 1"
    if all: "\<forall>A B. A \<subseteq> {0..<n} \<and> B \<subseteq> {0..<n} \<and> code_quorum n \<le> card A \<and> code_quorum n \<le> card B
      \<longrightarrow> ?f < card (A \<inter> B)"
  proof -
    have "?f < card ({0..<code_quorum n} \<inter> {n - code_quorum n..<n})"
      using le by (intro all [rule_format]) auto
    then have "?f < 2 * code_quorum n - n" using interval_quorums [OF le] by simp
    then have "(n - 1) div 3 * 3 + 1 \<ge> n" using q by linarith
    with assms(1) show ?thesis by presburger
  qed
  fix A B
  assume m: "n mod 3 = 1"
    and AB: "A \<subseteq> {0..<n} \<and> B \<subseteq> {0..<n} \<and> code_quorum n \<le> card A \<and> code_quorum n \<le> card B"
  then have fin: "finite A" "finite B" by (auto intro: finite_subset)
  have "card (A \<union> B) \<le> card {0..<n}" using AB by (intro card_mono) auto
  moreover have "card A + card B = card (A \<union> B) + card (A \<inter> B)" using fin by (rule card_Un_Int)
  moreover have "n = 3 * ((n - 1) div 3) + 1" using m assms(1) by presburger
  ultimately show "?f < card (A \<inter> B)" using q AB by auto
qed

theorem quorums_overlap_iff_witness:
  "code_quorum 4 = 3 \<and> code_quorum 6 = 3 \<and>
   (\<exists>A B. A \<subseteq> {0..<6 :: nat} \<and> B \<subseteq> {0..<6} \<and> code_quorum 6 \<le> card A \<and> code_quorum 6 \<le> card B \<and>
      card (A \<inter> B) \<le> 1)"
proof -
  have f: "unat (cf_f (pbft_config_new (of_nat 6))) = 1" using code_quorum_eq(2) [of 6] by simp
  have "\<not> (\<forall>A B. A \<subseteq> {0..<6 :: nat} \<and> B \<subseteq> {0..<6} \<and> code_quorum 6 \<le> card A \<and> code_quorum 6 \<le> card B \<longrightarrow>
      1 < card (A \<inter> B))"
    using quorums_overlap_iff [of 6] unfolding f by simp
  then show ?thesis
    using code_quorum_eq(1) [of 4] code_quorum_eq(1) [of 6] by (auto simp: not_less)
qed

end
