(* ===== verification/System_Model.thy ===== *)
theory System_Model
  imports Replica_Safety Quorums
begin

text \<open>
  The replicas together. The correct replicas \<open>H\<close> run the code; the network and everybody else
  may deliver any message to any of them, in any order and any number of times. The only limit is
  that nobody but a correct replica makes signatures that verify under its identifier: a delivered
  message whose signature does so repeats a statement that this replica has signed. A step is one
  event at one correct replica; \<open>D\<close> is a further condition on the events (\<open>\<lambda>_ _. True\<close> for none).
\<close>

section \<open>Statements in effects and messages\<close>

fun effect_statements :: "effect \<Rightarrow> statement set" where
  "effect_statements (Out (Broadcast (Consensus (PrePrepare pp)))) =
     {PrepareStatement (pp_view pp) (pp_sequence pp) (pp_digest pp)}"
| "effect_statements (Out (Broadcast (Consensus (Prepare pr)))) =
     {PrepareStatement (pr_view pr) (pr_sequence pr) (pr_digest pr)}"
| "effect_statements (Out (Broadcast (Consensus (Commit cm)))) =
     {CommitStatement (cm_view cm) (cm_sequence cm) (cm_digest cm)}"
| "effect_statements (Out (Broadcast (Consensus (Checkpoint cp)))) =
     {CheckpointStatement (cp_sequence cp) (cp_digest cp)}"
| "effect_statements (Out (Broadcast (Consensus (NewView nv)))) = {NewViewStatement (nv_new_view nv)}"
| "effect_statements (Out (Broadcast (Consensus (ViewChange vc)))) =
     {ViewChangeStatement (vc_new_view vc)}"
| "effect_statements _ = {}"

definition statements :: "effect list \<Rightarrow> statement set" where
  "statements es = \<Union> (effect_statements ` set es)"

lemma statements_append [simp]: "statements (es @ fs) = statements es \<union> statements fs"
  by (simp add: statements_def)

lemma statements_simps [simp]:
  "statements [] = {}" "statements (e # es) = effect_statements e \<union> statements es"
  by (simp_all add: statements_def)

text \<open>The statement that a message carries a signature for: signer, statement, signature.\<close>

fun message_statement :: "consensus_message \<Rightarrow> (node_id \<times> statement \<times> byte list) option" where
  "message_statement (PrePrepare pp) =
     Some (pp_primary_id pp, PrepareStatement (pp_view pp) (pp_sequence pp) (pp_digest pp), pp_signature pp)"
| "message_statement (Prepare pr) =
     Some (pr_replica_id pr, PrepareStatement (pr_view pr) (pr_sequence pr) (pr_digest pr), pr_signature pr)"
| "message_statement (Commit cm) =
     Some (cm_replica_id cm, CommitStatement (cm_view cm) (cm_sequence cm) (cm_digest cm), cm_signature cm)"
| "message_statement (ViewChange vc) =
     Some (vc_replica_id vc, ViewChangeStatement (vc_new_view vc), vc_signature vc)"
| "message_statement (NewView nv) =
     Some (nv_primary_id nv, NewViewStatement (nv_new_view nv), nv_signature nv)"
| "message_statement (Checkpoint cp) =
     Some (cp_replica_id cp, CheckpointStatement (cp_sequence cp) (cp_digest cp), cp_signature cp)"
| "message_statement (Request _) = None"
| "message_statement (Reply _) = None"

definition authentic ::
  "('sk, 'vk) crypto_lib \<Rightarrow> node_id set \<Rightarrow> (node_id \<times> statement) set \<Rightarrow> consensus_message \<Rightarrow> bool" where
  "authentic L H S msg \<longleftrightarrow>
     (case message_statement msg of
        None \<Rightarrow> True
      | Some (k, st, sig) \<Rightarrow>
          k \<in> H \<and> verify_node_signature L k (as_bytes (statement_text st)) sig \<longrightarrow> (k, st) \<in> S)"

lemma authentic_mono: "authentic L H S msg \<Longrightarrow> S \<subseteq> T \<Longrightarrow> authentic L H T msg"
  by (auto simp: authentic_def split: option.splits)

section \<open>System states and steps\<close>

record ('sk, 'vk) system =
  sys_nodes :: "node_id \<Rightarrow> ('sk, 'vk) pbft_state"
  sys_signed :: "(node_id \<times> statement) set"

definition system_init ::
  "(node_id \<Rightarrow> instant) \<Rightarrow> (node_id \<Rightarrow> ('sk, 'vk) keypair) \<Rightarrow> node_id list \<Rightarrow> ('sk, 'vk) system" where
  "system_init clock keys replicas =
     \<lparr>sys_nodes = (\<lambda>i. pbft_state_new (clock i) i (keys i) replicas
        (pbft_config_new (of_nat (length replicas)))), sys_signed = {}\<rparr>"

inductive system_step ::
  "('sk, 'vk) crypto_lib \<Rightarrow> node_id set \<Rightarrow> (event \<Rightarrow> ('sk, 'vk) pbft_state \<Rightarrow> bool)
     \<Rightarrow> ('sk, 'vk) system \<Rightarrow> ('sk, 'vk) system \<Rightarrow> bool"
  for L H D where
  event_at:
    "i \<in> H \<Longrightarrow> D ev (sys_nodes y i) \<Longrightarrow>
     (\<And>msg. msg \<in> event_messages ev \<Longrightarrow> authentic L H (sys_signed y) msg) \<Longrightarrow>
     replica_step L ev (sys_nodes y i) = (r, s', es) \<Longrightarrow>
     system_step L H D y
       \<lparr>sys_nodes = (sys_nodes y)(i := s'), sys_signed = sys_signed y \<union> {i} \<times> statements es\<rparr>"

inductive system_reach ::
  "('sk, 'vk) crypto_lib \<Rightarrow> node_id set \<Rightarrow> (event \<Rightarrow> ('sk, 'vk) pbft_state \<Rightarrow> bool)
     \<Rightarrow> ('sk, 'vk) system \<Rightarrow> nat \<Rightarrow> ('sk, 'vk) system \<Rightarrow> bool"
  for L H D y0 where
  reach_init: "system_reach L H D y0 0 y0"
| reach_step: "system_reach L H D y0 k y \<Longrightarrow> system_step L H D y y' \<Longrightarrow> system_reach L H D y0 (Suc k) y'"

text \<open>
  A group of replicas as the code sets one up: distinct identifiers, at most \<open>f\<close> of \<open>3 f + 1\<close>
  replicas faulty, every correct replica with the key pair its identifier names.
\<close>

definition correct_group ::
  "('sk, 'vk) crypto_lib \<Rightarrow> (node_id \<Rightarrow> ('sk, 'vk) keypair) \<Rightarrow> node_id list \<Rightarrow> nat \<Rightarrow> node_id set \<Rightarrow> bool" where
  "correct_group L keys replicas f H \<longleftrightarrow>
     crypto_ok L \<and> distinct replicas \<and> length replicas = 3 * f + 1 \<and> length replicas < 2 ^ 64 \<and>
     H \<subseteq> set replicas \<and> card (set replicas - H) \<le> f \<and>
     (\<forall>i\<in>H. keypair_wf L (keys i) \<and> public_key_hex L (keys i) = i)"

lemma correct_groupD:
  assumes "correct_group L keys replicas f H"
  shows "crypto_ok L" "distinct replicas" "length replicas = 3 * f + 1" "length replicas < 2 ^ 64"
    "H \<subseteq> set replicas" "card (set replicas - H) \<le> f"
    "\<And>i. i \<in> H \<Longrightarrow> keypair_wf L (keys i)" "\<And>i. i \<in> H \<Longrightarrow> public_key_hex L (keys i) = i"
  using assms by (simp_all add: correct_group_def)

section \<open>New pre-prepares\<close>

definition announces :: "pre_prepare \<Rightarrow> effect list \<Rightarrow> bool" where
  "announces pp es \<longleftrightarrow> Out (Broadcast (Consensus (PrePrepare pp))) \<in> set es"

lemma advance_announces_nothing:
  "try_advance_to_committed L n s = (r, s', es) \<Longrightarrow> \<not> announces pp es"
  "try_advance_to_prepared L n s = (r, s', es) \<Longrightarrow> \<not> announces pp es"
proof -
  have cp: "try_checkpoint L n s = (r, s', es) \<Longrightarrow> \<not> announces pp es" for n s r s' es
    by (auto simp: announces_def elim!: try_checkpoint_cases)
  show co: "try_advance_to_committed L n s = (r, s', es) \<Longrightarrow> \<not> announces pp es" for n s r s' es
    using cp by (fastforce simp: try_advance_to_committed_def emit_eq_iff announces_def
        split: prod.splits section_result.splits option.splits)
  show "try_advance_to_prepared L n s = (r, s', es) \<Longrightarrow> \<not> announces pp es"
    using co by (fastforce simp: try_advance_to_prepared_def emit_eq_iff announces_def
        split: prod.splits section_result.splits)
qed

lemma handle_request_announces:
  assumes "handle_request L now req s = (r, s', es)" and "announces pp es"
  shows "pp_sequence pp = st_sequence s + 1"
proof -
  obtain x t where x: "handle_request_section L now req s = (x, t)" by fastforce
  then show ?thesis
  proof (cases rule: handle_request_section_cases)
    case (propose n p pr)
    with x assms show ?thesis
      by (auto simp: handle_request_def emit_eq_iff announces_def
          dest: advance_announces_nothing(2) [unfolded announces_def])
  qed (use x assms in \<open>auto simp: handle_request_def announces_def\<close>)
qed

lemma other_handlers_announce_nothing:
  "handle_pre_prepare L now q s = (r, s', es) \<Longrightarrow> \<not> announces pp es"
  "handle_prepare L now pr s = (r, s', es) \<Longrightarrow> \<not> announces pp es"
  "handle_commit L now cm s = (r, s', es) \<Longrightarrow> \<not> announces pp es"
  "handle_view_change L vc s = (r, s', es) \<Longrightarrow> \<not> announces pp es"
  "handle_new_view now nv s = (r, s', es) \<Longrightarrow> \<not> announces pp es"
  "handle_checkpoint cp s = (r, s', es) \<Longrightarrow> \<not> announces pp es"
  "start_view_change L s = (r, s', es) \<Longrightarrow> \<not> announces pp es"
  "check_timeout L now s = (r, s', es) \<Longrightarrow> \<not> announces pp es"
  by (auto simp: announces_def handle_pre_prepare_def handle_prepare_def handle_commit_def emit_eq_iff
      dest: advance_announces_nothing [unfolded announces_def]
      elim!: handle_view_change_cases handle_new_view_cases handle_checkpoint_cases
        start_view_change_cases check_timeout_cases
      split: prod.splits section_result.splits)

lemma replica_step_announces:
  assumes "replica_step L ev s = (r, s', es)" and "announces pp es"
  shows "pp_sequence pp = st_sequence s + 1"
proof (cases ev)
  case (Receive now msg)
  with assms show ?thesis
    by (cases msg) (auto simp: replica_step_def process_message_def announces_def
        dest: handle_request_announces [unfolded announces_def]
          other_handlers_announce_nothing [unfolded announces_def])
qed (use assms in \<open>auto simp: replica_step_def dest: other_handlers_announce_nothing\<close>)

end
