(* ===== verification/Phase_Order.thy ===== *)
theory Phase_Order
  imports System_Model Scenarios
begin

text \<open>
  The life of a log entry. Between two moments of a run an entry keeps the proposal it has accepted
  and its voters, and goes forward in the order of the phases, or it is discarded below the low
  water mark. The one way back is the replica itself proposing again under that number, as a
  primary whose own counter is behind does.
\<close>

section \<open>Entries and logs over time\<close>

definition later_entry :: "consensus_instance \<Rightarrow> consensus_instance \<Rightarrow> bool" where
  "later_entry i j \<longleftrightarrow>
     ci_phase i \<le> ci_phase j \<and>
     (ci_pre_prepare i \<noteq> None \<longrightarrow>
        ci_pre_prepare j = ci_pre_prepare i \<and> ci_digest j = ci_digest i \<and> ci_request j = ci_request i) \<and>
     hm_keys (ci_prepares i) \<subseteq> hm_keys (ci_prepares j) \<and>
     hm_keys (ci_commits i) \<subseteq> hm_keys (ci_commits j)"

lemma later_entry_refl [simp]: "later_entry i i"
  by (simp add: later_entry_def)

lemma later_entry_trans: "later_entry i j \<Longrightarrow> later_entry j k \<Longrightarrow> later_entry i k"
  unfolding later_entry_def by (fastforce intro: order_trans)

definition proposes :: "sequence_number \<Rightarrow> effect list \<Rightarrow> bool" where
  "proposes n es \<longleftrightarrow> (\<exists>pp. announces pp es \<and> pp_sequence pp = n)"

lemma proposes_append [simp]: "proposes n (es @ fs) \<longleftrightarrow> proposes n es \<or> proposes n fs"
  by (auto simp: proposes_def announces_def)

definition moved_on ::
  "('sk, 'vk) pbft_state \<Rightarrow> effect list \<Rightarrow> ('sk, 'vk) pbft_state \<Rightarrow> sequence_number \<Rightarrow> bool" where
  "moved_on s es t n \<longleftrightarrow>
     (\<forall>i. hm_get (st_log s) n = Some i \<longrightarrow> proposes n es \<or>
        (case hm_get (st_log t) n of None \<Rightarrow> n \<le> st_low_watermark t | Some j \<Rightarrow> later_entry i j))"

lemma moved_on_put:
  "(\<And>i. hm_get (st_log s) n = Some i \<Longrightarrow> later_entry i inst) \<Longrightarrow>
   st_log t = hm_insert n inst (st_log s) \<Longrightarrow> moved_on s es t m"
  by (simp add: moved_on_def split: option.split)

lemma moved_on_same_log: "st_log t = st_log s \<Longrightarrow> moved_on s es t m"
  by (simp add: moved_on_def split: option.split)

section \<open>Every update moves on\<close>

lemma later_entry_proposal:
  "instance_wf L q ex n i \<Longrightarrow> ci_pre_prepare i = None \<Longrightarrow> later_entry i (with_proposal pp pr i)"
  by (auto simp: instance_wf_def proposal_wf_def later_entry_def with_proposal_def)

lemma later_entry_votes [simp]:
  "later_entry i (i\<lparr>ci_prepares := hm_insert k pr (ci_prepares i)\<rparr>)"
  "later_entry i (i\<lparr>ci_commits := hm_insert k cm (ci_commits i)\<rparr>)"
  by (auto simp: later_entry_def)

lemma later_entry_phases:
  "ci_phase i = PrePrepared \<Longrightarrow>
   later_entry i (i\<lparr>ci_phase := Prepared, ci_commits := hm_insert k cm (ci_commits i)\<rparr>)"
  "ci_phase i = Prepared \<Longrightarrow> later_entry i (i\<lparr>ci_phase := Committed\<rparr>)"
  by (auto simp: later_entry_def)

lemma atomic_moves_on:
  assumes "atomic L M s es s'" and "state_wf L s"
  shows "moved_on s es s' m"
  using assms(1)
proof cases
  case (propose req n pp pr now)
  have "proposes n es" by (auto simp: propose proposes_def announces_def)
  then show ?thesis
    by (cases "m = n") (simp_all add: moved_on_def propose split: option.split)
next
  case (accept pp n now pr)
  have "instance_wf L (state_quorum s) (st_executed s) n (instance_at now n s)"
    using assms(2) by (simp add: instance_at_wf state_wf_def)
  with accept(9) show ?thesis
    by (intro moved_on_put [where n = n and inst = "with_proposal pp pr (instance_at now n s)"])
      (auto simp: accept(2) instance_at_present later_entry_proposal)
next
  case (add_prepare pr n inst now)
  then show ?thesis
    by (intro moved_on_put [where n = n and inst = "inst\<lparr>ci_prepares := hm_insert (pr_replica_id pr) pr (ci_prepares inst)\<rparr>"])
      (auto simp: instance_at_present)
next
  case (add_commit cm n inst now)
  then show ?thesis
    by (intro moved_on_put [where n = n and inst = "inst\<lparr>ci_commits := hm_insert (cm_replica_id cm) cm (ci_commits inst)\<rparr>"])
      (auto simp: instance_at_present)
next
  case (become_prepared n inst d cm)
  then show ?thesis
    by (intro moved_on_put [where n = n
          and inst = "inst\<lparr>ci_phase := Prepared, ci_commits := hm_insert (st_node_id s) cm (ci_commits inst)\<rparr>"])
      (auto simp: later_entry_phases)
next
  case (execute n inst req)
  then show ?thesis
    by (intro moved_on_put [where n = n and inst = "inst\<lparr>ci_phase := Committed\<rparr>"])
      (auto simp: later_entry_phases)
next
  case (finish n inst)
  then show ?thesis
    by (intro moved_on_put [where n = n and inst = "inst\<lparr>ci_phase := Committed\<rparr>"])
      (auto simp: later_entry_phases)
next
  case (stabilise n)
  then show ?thesis by (auto simp: moved_on_def not_less split: option.split)
qed (simp_all add: moved_on_same_log)

lemma atomic_low_watermark:
  "atomic L M s es s' \<Longrightarrow> watermarks_ok s \<Longrightarrow> st_low_watermark s \<le> st_low_watermark s'"
  by (erule atomic.cases) (auto simp: watermarks_ok_def)

lemma atomic_creates_above_low:
  assumes "atomic L M s es s'" and "hm_get (st_log s) m = None" and "hm_get (st_log s') m \<noteq> None"
  shows "proposes m es \<or> st_low_watermark s < m"
  using assms
  by cases (auto simp: proposes_def announces_def in_window_def split: if_splits)

lemma moved_on_trans:
  assumes "moved_on s0 h s m" and "atomic L M s es s'" and "state_wf L s"
  shows "moved_on s0 (h @ es) s' m"
proof -
  have low: "st_low_watermark s \<le> st_low_watermark s'"
    using atomic_low_watermark [OF assms(2)] assms(3) by (simp add: state_wf_def)
  show ?thesis
  proof (cases "hm_get (st_log s) m")
    case None
    with assms(1) low show ?thesis
      using atomic_creates_above_low [OF assms(2) None]
      by (fastforce simp: moved_on_def split: option.splits)
  next
    case (Some j)
    with assms(1) atomic_moves_on [OF assms(2,3), of m] show ?thesis
      by (auto simp: moved_on_def split: option.splits intro: later_entry_trans)
  qed
qed

interpretation entry_inv: history_invariant "atomic L M"
  "\<lambda>s h. crypto_ok L \<and> state_wf L s \<and> moved_on s0 h s m" for L M s0 m
  by unfold_locales (blast intro: atomic_state_wf moved_on_trans)

text \<open>
  C10. Take two moments of a run, and an entry that the log of a replica holds at the first. At the
  second the entry is still there, no less advanced, with the proposal it had accepted, its digest
  and its request, and with all its voters; or a stable checkpoint has passed it and it is gone; or
  the replica has itself proposed under this number in between.
\<close>

theorem entries_move_forward:
  assumes "crypto_ok L" and "keypair_wf L kp"
    and "replica_run L evs (pbft_state_new now (public_key_hex L kp) kp replicas config) = (True, s, h)"
    and "replica_run L evs' s = (alive, s', es)" and "hm_get (st_log s) n = Some i"
  shows "(\<exists>j. hm_get (st_log s') n = Some j \<and> ci_phase i \<le> ci_phase j \<and>
      (ci_pre_prepare i \<noteq> None \<longrightarrow> ci_pre_prepare j = ci_pre_prepare i \<and>
         ci_digest j = ci_digest i \<and> ci_request j = ci_request i) \<and>
      hm_keys (ci_prepares i) \<subseteq> hm_keys (ci_prepares j) \<and>
      hm_keys (ci_commits i) \<subseteq> hm_keys (ci_commits j)) \<or>
    (hm_get (st_log s') n = None \<and> n \<le> st_low_watermark s') \<or>
    (\<exists>pp. announces pp es \<and> pp_sequence pp = n)"
proof -
  have "state_wf L s" by (rule replica_run_state_wf [OF assms(3,1) state_wf_new [OF assms(2)]])
  with assms(1) have "moved_on s es s' n"
    using entry_inv.trace_from_start [OF replica_run_trace_all [OF assms(4)], of s n]
    by (simp add: moved_on_same_log)
  with assms(5) show ?thesis
    by (auto simp: moved_on_def later_entry_def proposes_def split: option.splits)
qed

section \<open>Witness\<close>

theorem entries_move_forward_witness:
  "\<exists>s h i. replica_run toy_lib [Receive 1 (Prepare (signed_prepare toy_lib (toy_keypair 2) 0 1 sample_digest))]
      (member 1) = (True, s, h) \<and> hm_get (st_log s) 1 = Some i \<and> hm_keys (ci_prepares i) = {toy_id 2} \<and>
    (case replica_run toy_lib
        [Receive 2 (PrePrepare (signed_pre_prepare toy_lib (toy_keypair 0) 0 1 sample_request))] s of
      (alive, s', es) \<Rightarrow>
        (\<exists>j. hm_get (st_log s') 1 = Some j \<and> ci_phase i \<le> ci_phase j \<and> toy_id 2 \<in> hm_keys (ci_prepares j)) \<or>
        (hm_get (st_log s') 1 = None \<and> 1 \<le> st_low_watermark s') \<or>
        (\<exists>pp. announces pp es \<and> pp_sequence pp = 1))"
proof -
  let ?evs = "[Receive 1 (Prepare (signed_prepare toy_lib (toy_keypair 2) 0 1 sample_digest))]"
  obtain s h i where r: "replica_run toy_lib ?evs (member 1) = (True, s, h)"
    and i: "hm_get (st_log s) 1 = Some i" "hm_keys (ci_prepares i) = {toy_id 2}"
    by (simp add: member_def run_defs sample_digest_def)
  obtain alive s' es where r': "replica_run toy_lib
      [Receive 2 (PrePrepare (signed_pre_prepare toy_lib (toy_keypair 0) 0 1 sample_request))] s = (alive, s', es)"
    using prod_cases3 by blast
  show ?thesis
    using entries_move_forward [OF toy_lib_ok toy_keypair_wf r [unfolded member_eq] r' i(1)] r r' i by auto
qed

end
