(* ===== verification/Replica_Progress.thy ===== *)
theory Replica_Progress
  imports Replica_Safety
begin

text \<open>
  Progress of one replica. After every handled event no log entry waits for something it already
  has: an entry with a quorum of prepares has left \<open>PrePrepared\<close>, one with a quorum of commits has
  left \<open>Prepared\<close> (\<open>settled\<close>). So the votes that have been recorded decide the phase, and the
  messages of one consensus instance commit it in whatever order they arrive.
\<close>

section \<open>Settled entries\<close>

definition entry_settled :: "nat \<Rightarrow> consensus_instance \<Rightarrow> bool" where
  "entry_settled q inst \<longleftrightarrow>
     (ci_phase inst = PrePrepared \<longrightarrow> hm_len (ci_prepares inst) < q) \<and>
     (ci_phase inst = Prepared \<longrightarrow> hm_len (ci_commits inst) < q)"

definition settled_but :: "sequence_number set \<Rightarrow> ('sk, 'vk) pbft_state \<Rightarrow> bool" where
  "settled_but X s \<longleftrightarrow>
     (\<forall>n inst. hm_get (st_log s) n = Some inst \<longrightarrow> n \<notin> X \<longrightarrow> entry_settled (state_quorum s) inst)"

abbreviation settled :: "('sk, 'vk) pbft_state \<Rightarrow> bool" where
  "settled s \<equiv> settled_but {} s"

lemma settled_but_log:
  "settled_but X s \<Longrightarrow> st_log t = st_log s \<Longrightarrow> st_config t = st_config s \<Longrightarrow> settled_but X t"
  by (simp add: settled_but_def state_quorum_def)

lemma settled_but_put: "settled_but {} s \<Longrightarrow> settled_but {n} (put_instance n inst s)"
  by (simp add: settled_but_def state_quorum_def)

lemma settled_put: "settled_but {n} s \<Longrightarrow> entry_settled (state_quorum s) inst \<Longrightarrow> settled (put_instance n inst s)"
  by (auto simp: settled_but_def state_quorum_def)

lemma settled_from_entry:
  "settled_but {n} s \<Longrightarrow> (\<And>inst. hm_get (st_log s) n = Some inst \<Longrightarrow> entry_settled (state_quorum s) inst) \<Longrightarrow>
   settled s"
  by (auto simp: settled_but_def)

lemma try_advance_to_committed_settles:
  assumes "try_advance_to_committed L n s = (r, s', es)" and "settled_but {n} s"
    and "\<And>inst. hm_get (st_log s) n = Some inst \<Longrightarrow> ci_phase inst = PrePrepared \<Longrightarrow>
      hm_len (ci_prepares inst) < state_quorum s"
  shows "settled s'"
proof (cases "\<exists>inst. hm_get (st_log s) n = Some inst \<and> ci_phase inst = Prepared \<and>
    state_quorum s \<le> hm_len (ci_commits inst)")
  case False
  then have "try_committed_section L n s = (Return (Ok ()), s)"
    by (auto simp: try_committed_section_def state_quorum_def split: option.splits)
  with assms(1) have "s' = s" by (simp add: try_advance_to_committed_def)
  with assms False show ?thesis
    by (auto simp: entry_settled_def not_le intro!: settled_from_entry)
next
  case True
  then obtain inst where i: "hm_get (st_log s) n = Some inst" "ci_phase inst = Prepared"
      "state_quorum s \<le> hm_len (ci_commits inst)" by blast
  have "settled (put_instance n (inst\<lparr>ci_phase := Committed\<rparr>) s)"
    by (rule settled_put [OF assms(2)]) (simp add: entry_settled_def)
  moreover obtain x t where x: "try_committed_section L n s = (x, t)" by fastforce
  ultimately have "settled t"
    using i by (auto simp: try_committed_section_def state_quorum_def Let_def not_less
        split: option.splits if_splits intro: settled_but_log)
  with x assms(1) show ?thesis
    by (auto simp: try_advance_to_committed_def emit_eq_iff elim!: try_checkpoint_cases
        split: section_result.splits option.splits)
qed

lemma try_advance_to_prepared_settles:
  assumes "try_advance_to_prepared L n s = (r, s', es)" and "settled_but {n} s" and "log_wf L s"
    and "\<And>inst. hm_get (st_log s) n = Some inst \<Longrightarrow> ci_phase inst = Prepared \<Longrightarrow>
      hm_len (ci_commits inst) < state_quorum s"
  shows "settled s'"
proof (cases "\<exists>inst. hm_get (st_log s) n = Some inst \<and> ci_phase inst = PrePrepared \<and>
    state_quorum s \<le> hm_len (ci_prepares inst)")
  case False
  then have "try_prepared_section L n s = (Return (Ok ()), s)"
    by (auto simp: try_prepared_section_def state_quorum_def split: option.splits)
  with assms(1) have "s' = s" by (simp add: try_advance_to_prepared_def)
  with assms False show ?thesis
    by (auto simp: entry_settled_def not_le intro!: settled_from_entry)
next
  case True
  then obtain inst where i: "hm_get (st_log s) n = Some inst" "ci_phase inst = PrePrepared"
      "state_quorum s \<le> hm_len (ci_prepares inst)" by blast
  then obtain pp d where p: "ci_pre_prepare inst = Some pp" "ci_digest inst = Some d"
    using instance_certificates(3) [OF log_wfD [OF assms(3) i(1)]] by auto
  obtain cm inst' where t: "try_prepared_section L n s = (Continue cm, put_instance n inst' s)"
    and ph: "ci_phase inst' = Prepared"
    using i p by (auto simp: try_prepared_section_def state_quorum_def Let_def not_less)
  have "settled_but {n} (put_instance n inst' s)"
    using assms(2) by (simp add: settled_but_def state_quorum_def)
  with t ph assms(1) show ?thesis
    by (auto simp: try_advance_to_prepared_def emit_eq_iff dest!: try_advance_to_committed_settles)
qed

section \<open>Handlers settle\<close>

lemma handle_request_settles:
  assumes "handle_request L now req s = (r, s', es)" and "settled s" "state_wf L s" "crypto_ok L"
  shows "settled s'"
proof -
  obtain x t where x: "handle_request_section L now req s = (x, t)" by fastforce
  then show ?thesis
  proof (cases rule: handle_request_section_cases)
    case full
    with x assms show ?thesis by (auto simp: handle_request_def intro: settled_but_log)
  next
    case (propose n pp pr)
    have a: "atomic L UNIV s [Out (Broadcast (Consensus (PrePrepare pp))), Out (Broadcast (Consensus (Prepare pr)))] t"
      unfolding propose(5) by (rule atomic.propose [OF UNIV_I]) (use propose in simp_all)
    have b: "settled_but {n} t"
      unfolding propose(5) using assms(2) by (intro settled_but_put) (auto intro: settled_but_log)
    have "st_log t = hm_insert n (with_proposal pp pr (instance_at now n s)) (st_log s)"
      by (simp add: propose(5))
    with x assms(1) propose(1-3) show ?thesis
      using try_advance_to_prepared_settles [OF _ b atomic_log_wf [OF a assms(4,3)]]
      by (auto simp: handle_request_def emit_eq_iff with_proposal_def)
  qed (use x assms in \<open>auto simp: handle_request_def\<close>)
qed

lemma handle_pre_prepare_settles:
  assumes "handle_pre_prepare L now pp s = (r, s', es)" and "settled s" "state_wf L s" "crypto_ok L"
  shows "settled s'"
proof -
  obtain x t where x: "handle_pre_prepare_section L now pp s = (x, t)" by fastforce
  then show ?thesis
  proof (cases rule: handle_pre_prepare_section_cases)
    case (accept n pr)
    have a: "atomic L UNIV s [Out (Broadcast (Consensus (Prepare pr)))] t"
      unfolding accept(10) by (rule atomic.accept [OF UNIV_I]) (use accept in simp_all)
    have b: "settled_but {n} t"
      unfolding accept(10) using settled_but_put [OF assms(2)] by (rule settled_but_log) simp_all
    have "st_log t = hm_insert n (with_proposal pp pr (instance_at now n s)) (st_log s)"
      by (simp add: accept(10))
    with x assms(1) accept(1-3) show ?thesis
      using try_advance_to_prepared_settles [OF _ b atomic_log_wf [OF a assms(4,3)]]
      by (auto simp: handle_pre_prepare_def emit_eq_iff with_proposal_def)
  qed (use x assms in \<open>auto simp: handle_pre_prepare_def\<close>)
qed

lemma settled_at: "settled s \<Longrightarrow> 0 < state_quorum s \<Longrightarrow> entry_settled (state_quorum s) (instance_at now n s)"
  by (auto simp: settled_but_def instance_at_def entry_settled_def split: option.splits)

lemma handle_prepare_settles:
  assumes "handle_prepare L now pr s = (r, s', es)" and "settled s" "state_wf L s" "crypto_ok L"
    and "0 < state_quorum s"
  shows "settled s'"
proof -
  obtain x t where x: "handle_prepare_section L now pr s = (x, t)" by fastforce
  then show ?thesis
  proof (cases rule: handle_prepare_section_cases)
    case (add n inst)
    have a: "atomic L UNIV s [] t"
      unfolding add(9) by (rule add_prepare [OF UNIV_I]) (use add in simp_all)
    have b: "settled_but {n} t" unfolding add(9) by (rule settled_but_put [OF assms(2)])
    have e: "entry_settled (state_quorum s) inst"
      unfolding add(3) by (rule settled_at [OF assms(2,5)])
    show ?thesis
    proof (rule try_advance_to_prepared_settles [OF _ b atomic_log_wf [OF a assms(4,3)]])
      show "try_advance_to_prepared L n t = (r, s', es)"
        using x add(1) assms(1) by (simp add: handle_prepare_def)
      show "hm_len (ci_commits i) < state_quorum t"
        if "hm_get (st_log t) n = Some i" "ci_phase i = Prepared" for i
        using that e by (auto simp: add(9) entry_settled_def state_quorum_def)
    qed
  qed (use x assms in \<open>auto simp: handle_prepare_def\<close>)
qed

lemma handle_commit_settles:
  assumes "handle_commit L now cm s = (r, s', es)" and "settled s" and "0 < state_quorum s"
  shows "settled s'"
proof -
  obtain x t where x: "handle_commit_section L now cm s = (x, t)" by fastforce
  then show ?thesis
  proof (cases rule: handle_commit_section_cases)
    case (add n inst)
    have b: "settled_but {n} t" unfolding add(9) by (rule settled_but_put [OF assms(2)])
    have e: "entry_settled (state_quorum s) inst"
      unfolding add(3) by (rule settled_at [OF assms(2,3)])
    show ?thesis
    proof (rule try_advance_to_committed_settles [OF _ b])
      show "try_advance_to_committed L n t = (r, s', es)"
        using x add(1) assms(1) by (simp add: handle_commit_def)
      show "hm_len (ci_prepares i) < state_quorum t"
        if "hm_get (st_log t) n = Some i" "ci_phase i = PrePrepared" for i
        using that e by (auto simp: add(9) entry_settled_def state_quorum_def)
    qed
  qed (use x assms in \<open>auto simp: handle_commit_def\<close>)
qed

lemma settled_make_stable: "settled s \<Longrightarrow> settled (make_stable n s)"
  by (simp add: settled_but_def state_quorum_def)

lemma other_handlers_settle:
  "handle_view_change L vc s = (r, s', es) \<Longrightarrow> settled s \<Longrightarrow> settled s'"
  "handle_new_view now nv s = (r, s', es) \<Longrightarrow> settled s \<Longrightarrow> settled s'"
  "handle_checkpoint cp s = (r, s', es) \<Longrightarrow> settled s \<Longrightarrow> settled s'"
  "start_view_change L s = (r, s', es) \<Longrightarrow> settled s \<Longrightarrow> settled s'"
  "check_timeout L now s = (r, s', es) \<Longrightarrow> settled s \<Longrightarrow> settled s'"
  by (auto elim!: handle_view_change_cases handle_new_view_cases handle_checkpoint_cases
      start_view_change_cases check_timeout_cases intro!: settled_make_stable intro: settled_but_log)

lemma replica_step_settles:
  assumes "replica_step L ev s = (r, s', es)" and "settled s" "state_wf L s" "crypto_ok L"
    and "0 < state_quorum s"
  shows "settled s'"
proof (cases ev)
  case (Receive now msg)
  with assms show ?thesis
    by (cases msg) (auto simp: replica_step_def process_message_def dest: handle_request_settles
        handle_pre_prepare_settles handle_prepare_settles handle_commit_settles other_handlers_settle)
qed (use assms in \<open>auto simp: replica_step_def dest: other_handlers_settle\<close>)

lemma replica_run_settles:
  assumes "replica_run L evs s = (alive, s', es)" and "settled s" "state_wf L s" "crypto_ok L"
    and "0 < state_quorum s"
  shows "settled s'"
  using assms(1,2,3,5)
proof (induction evs arbitrary: s alive s' es)
  case Nil
  then show ?case by simp
next
  case (Cons ev evs)
  obtain r t fs where st: "replica_step L ev s = (r, t, fs)" using prod_cases3 by blast
  obtain al u gs where ru: "replica_run L evs t = (al, u, gs)" using prod_cases3 by blast
  have "settled t" "state_wf L t" "0 < state_quorum t"
    using replica_step_settles [OF st] replica_step_state_wf [OF st] Cons.prems assms(4)
      trace_same_replica [OF replica_step_trace_all [OF st]]
    by (simp_all add: state_quorum_def same_replica_def)
  with Cons.IH [OF ru] Cons.prems(1) st ru show ?case by (cases r) auto
qed

lemma settled_new: "settled (pbft_state_new now nid kp replicas config)"
  by (simp add: settled_but_def)

end
