(* ===== verification/Agreement.thy ===== *)
theory Agreement
  imports System_Model
begin

text \<open>
  Agreement. A correct replica signs at most one prepare per view and sequence number
  (\<open>signer_ok\<close>), and a stored vote of a correct replica is one that it signed
  (\<open>votes_authentic\<close>). With overlapping quorums two prepare certificates for one view and number
  name the same digest. When prepares reach a replica after the pre-prepare, from members of the
  group only and without a view change, what a replica has committed is backed by such a
  certificate (\<open>clean\<close>).
\<close>

section \<open>Sequence numbers\<close>

lemma advance_keeps_sequence:
  "try_advance_to_committed L n s = (r, s', es) \<Longrightarrow> st_sequence s' = st_sequence s"
  "try_advance_to_prepared L n s = (r, s', es) \<Longrightarrow> st_sequence s' = st_sequence s"
proof -
  show co: "try_advance_to_committed L n s = (r, s', es) \<Longrightarrow> st_sequence s' = st_sequence s" for n s r s' es
    by (auto simp: try_advance_to_committed_def try_committed_section_def Let_def emit_eq_iff
        elim!: try_checkpoint_cases split: prod.splits option.splits if_splits)
  show "try_advance_to_prepared L n s = (r, s', es) \<Longrightarrow> st_sequence s' = st_sequence s"
  proof -
    assume a: "try_advance_to_prepared L n s = (r, s', es)"
    obtain x t where x: "try_prepared_section L n s = (x, t)" by fastforce
    then have "st_sequence t = st_sequence s"
      by (auto simp: try_prepared_section_def Let_def split: option.splits if_splits)
    with x a show ?thesis
      by (cases x) (auto simp: try_advance_to_prepared_def emit_eq_iff dest!: co)
  qed
qed

lemma handle_request_sequence:
  assumes "handle_request L now req s = (r, s', es)"
  shows "st_sequence s' = st_sequence s \<or> st_sequence s' = st_sequence s + 1"
proof -
  obtain x t where x: "handle_request_section L now req s = (x, t)" by fastforce
  then show ?thesis
    by (cases rule: handle_request_section_cases)
      (use x assms in \<open>auto simp: handle_request_def emit_eq_iff dest: advance_keeps_sequence\<close>)
qed

lemma handle_pre_prepare_sequence:
  assumes "handle_pre_prepare L now pp s = (r, s', es)"
  shows "st_sequence s' = st_sequence s"
proof -
  obtain x t where x: "handle_pre_prepare_section L now pp s = (x, t)" by fastforce
  then show ?thesis
    by (cases rule: handle_pre_prepare_section_cases)
      (use x assms in \<open>auto simp: handle_pre_prepare_def emit_eq_iff dest: advance_keeps_sequence\<close>)
qed

lemma handle_vote_sequence:
  "handle_prepare L now pr s = (r, s', es) \<Longrightarrow> st_sequence s' = st_sequence s"
  "handle_commit L now cm s = (r, s', es) \<Longrightarrow> st_sequence s' = st_sequence s"
proof -
  assume a: "handle_prepare L now pr s = (r, s', es)"
  obtain x t where x: "handle_prepare_section L now pr s = (x, t)" by fastforce
  then show "st_sequence s' = st_sequence s"
    by (cases rule: handle_prepare_section_cases)
      (use x a in \<open>auto simp: handle_prepare_def dest: advance_keeps_sequence\<close>)
next
  assume a: "handle_commit L now cm s = (r, s', es)"
  obtain x t where x: "handle_commit_section L now cm s = (x, t)" by fastforce
  then show "st_sequence s' = st_sequence s"
    by (cases rule: handle_commit_section_cases)
      (use x a in \<open>auto simp: handle_commit_def dest: advance_keeps_sequence\<close>)
qed

lemma other_handlers_sequence:
  "handle_view_change L vc s = (r, s', es) \<Longrightarrow> st_sequence s' = st_sequence s"
  "handle_new_view now nv s = (r, s', es) \<Longrightarrow> st_sequence s' = st_sequence s"
  "handle_checkpoint cp s = (r, s', es) \<Longrightarrow> st_sequence s' = st_sequence s"
  "start_view_change L s = (r, s', es) \<Longrightarrow> st_sequence s' = st_sequence s"
  "check_timeout L now s = (r, s', es) \<Longrightarrow> st_sequence s' = st_sequence s"
  by (auto elim!: handle_view_change_cases handle_new_view_cases handle_checkpoint_cases
      start_view_change_cases check_timeout_cases)

lemma replica_step_sequence:
  assumes "replica_step L ev s = (r, s', es)"
  shows "unat (st_sequence s') \<le> Suc (unat (st_sequence s))"
proof -
  have "st_sequence s' = st_sequence s \<or> st_sequence s' = st_sequence s + 1"
  proof (cases ev)
    case (Receive now msg)
    with assms show ?thesis
      by (cases msg) (auto simp: replica_step_def process_message_def
          dest: handle_request_sequence handle_pre_prepare_sequence handle_vote_sequence
            other_handlers_sequence)
  qed (use assms in \<open>auto simp: replica_step_def dest: other_handlers_sequence\<close>)
  then show ?thesis by (auto simp: unat_word_ariths)
qed

section \<open>One prepare per view and sequence number\<close>

definition prepare_statements ::
  "node_id \<Rightarrow> (node_id \<times> statement) set \<Rightarrow> (view_number \<times> sequence_number \<times> hash) set" where
  "prepare_statements k S = {(v, n, d). (k, PrepareStatement v n d) \<in> S}"

lemma prepare_statements_Un:
  "prepare_statements k (S \<union> T) = prepare_statements k S \<union> prepare_statements k T"
  by (auto simp: prepare_statements_def)

lemma prepare_statements_own:
  "prepare_statements k ({k} \<times> A) = {(v, n, d). PrepareStatement v n d \<in> A}"
  by (auto simp: prepare_statements_def)

lemma no_triples [simp]: "{(v, n, d). False} = {}"
  by auto

definition proposed :: "sequence_number \<Rightarrow> ('sk, 'vk) pbft_state \<Rightarrow> bool" where
  "proposed n s \<longleftrightarrow> (\<exists>inst. hm_get (st_log s) n = Some inst \<and> ci_pre_prepare inst \<noteq> None)"

definition signer_ok ::
  "(view_number \<times> sequence_number \<times> hash) set \<Rightarrow> ('sk, 'vk) pbft_state \<Rightarrow> bool" where
  "signer_ok P s \<longleftrightarrow>
     (\<forall>v n d. (v, n, d) \<in> P \<longrightarrow>
        v \<le> st_view s \<and> (\<forall>d'. (v, n, d') \<in> P \<longrightarrow> d' = d) \<and>
        (st_low_watermark s < n \<longrightarrow> proposed n s) \<and>
        (primary_of (st_replicas s) v = Some (st_node_id s) \<longrightarrow> n \<le> st_sequence s))"

lemma signer_ok_keep:
  assumes "signer_ok P s" and "st_view s \<le> st_view t" and "st_low_watermark s \<le> st_low_watermark t"
    and "\<And>n. st_low_watermark t < n \<Longrightarrow> proposed n s \<Longrightarrow> proposed n t"
    and "st_replicas t = st_replicas s" and "st_node_id t = st_node_id s"
    and "st_sequence s \<le> st_sequence t"
  shows "signer_ok P t"
  unfolding signer_ok_def
proof (intro allI impI)
  fix v n d
  assume "(v, n, d) \<in> P"
  with assms(1) have "v \<le> st_view s" "\<forall>d'. (v, n, d') \<in> P \<longrightarrow> d' = d"
    and log: "st_low_watermark s < n \<Longrightarrow> proposed n s"
    and "primary_of (st_replicas s) v = Some (st_node_id s) \<Longrightarrow> n \<le> st_sequence s"
    unfolding signer_ok_def by blast+
  moreover have "proposed n t" if "st_low_watermark t < n"
    using assms(4) [OF that log] assms(3) that by simp
  ultimately show "v \<le> st_view t \<and> (\<forall>d'. (v, n, d') \<in> P \<longrightarrow> d' = d) \<and>
      (st_low_watermark t < n \<longrightarrow> proposed n t) \<and>
      (primary_of (st_replicas t) v = Some (st_node_id t) \<longrightarrow> n \<le> st_sequence t)"
    using assms(2,5,6,7) by auto
qed

lemma signer_ok_add:
  assumes "signer_ok P s" and "\<And>d'. (st_view s, n, d') \<in> P \<Longrightarrow> d' = d" and "proposed n s"
    and "primary s = Some (st_node_id s) \<Longrightarrow> n \<le> st_sequence s"
  shows "signer_ok (insert (st_view s, n, d) P) s"
  using assms unfolding signer_ok_def primary_def by auto

lemma proposed_put:
  "proposed m (put_instance n inst s) \<longleftrightarrow> (if m = n then ci_pre_prepare inst \<noteq> None else proposed m s)"
  by (auto simp: proposed_def)

lemma proposed_frame [simp]:
  "proposed n (s\<lparr>st_executed := a\<rparr>) = proposed n s" "proposed n (s\<lparr>st_sequence := b\<rparr>) = proposed n s"
  "proposed n (s\<lparr>st_last_primary_activity := c\<rparr>) = proposed n s"
  "proposed n (s\<lparr>st_view_changing := e\<rparr>) = proposed n s"
  "proposed n (store_checkpoint cp s) = proposed n s"
  "proposed n (store_view_change vc s) = proposed n s"
  by (simp_all add: proposed_def)

lemma with_proposal_sel [simp]:
  "ci_pre_prepare (with_proposal pp pr inst) = Some pp"
  "ci_prepares (with_proposal pp pr inst) = hm_insert (pr_replica_id pr) pr (ci_prepares inst)"
  "ci_commits (with_proposal pp pr inst) = ci_commits inst"
  "ci_digest (with_proposal pp pr inst) = Some (pp_digest pp)"
  "ci_request (with_proposal pp pr inst) = Some (pp_request pp)"
  "ci_phase (with_proposal pp pr inst) = PrePrepared"
  by (simp_all add: with_proposal_def)

lemma pre_prepare_at_proposed: "ci_pre_prepare (instance_at now n s) \<noteq> None \<longleftrightarrow> proposed n s"
  by (auto simp: instance_at_def proposed_def split: option.splits)

lemma proposed_instance: "proposed n s \<Longrightarrow> \<exists>pp. ci_pre_prepare (instance_at now n s) = Some pp"
  using pre_prepare_at_proposed [of now n s] by auto

text \<open>
  The vote that an accepted pre-prepare leads to does not contradict an earlier one: if this
  replica is itself the primary the pre-prepare repeats its own statement, otherwise an earlier
  vote would have left a proposal in the log.
\<close>

lemma atomic_signer_ok:
  assumes "atomic L M s es s'" and "state_wf L s" and "signer_ok P s"
    and "\<And>pp. PrePrepare pp \<in> M \<Longrightarrow> pp_primary_id pp = st_node_id s \<Longrightarrow>
      verify_node_signature L (pp_primary_id pp)
        (as_bytes (prepare_sign_data (pp_view pp) (pp_sequence pp) (pp_digest pp))) (pp_signature pp) \<Longrightarrow>
      (pp_view pp, pp_sequence pp, pp_digest pp) \<in> P"
    and "\<And>pp. announces pp es \<Longrightarrow> pp_sequence pp \<noteq> 0"
  shows "signer_ok (P \<union> prepare_statements (st_node_id s) ({st_node_id s} \<times> statements es)) s'"
proof -
  note keep = signer_ok_keep [OF assms(3)]
  from assms(1) show ?thesis
  proof cases
    case (propose req n pp pr now)
    have "n \<noteq> 0" using assms(5) [of pp] propose by (auto simp: announces_def)
    then have less: "st_sequence s < n"
      using u64_less_succ [of "st_sequence s"] propose(6) by simp
    let ?t = "put_instance n (with_proposal pp pr (instance_at now n s)) (s\<lparr>st_sequence := n\<rparr>)"
    have t: "signer_ok P ?t"
      using less by (intro keep) (auto simp: proposed_put)
    have fresh: "(st_view s, n, d) \<notin> P" for d
    proof
      assume "(st_view s, n, d) \<in> P"
      with assms(3) propose(4) have "n \<le> st_sequence s" unfolding signer_ok_def primary_def by blast
      with less show False by simp
    qed
    have "signer_ok (insert (st_view ?t, n, request_digest L req) P) ?t"
      using fresh by (intro signer_ok_add [OF t]) (auto simp: proposed_put)
    moreover have "P \<union> prepare_statements (st_node_id s) ({st_node_id s} \<times> statements es)
        = insert (st_view ?t, n, request_digest L req) P"
      unfolding prepare_statements_own propose by auto
    ultimately show ?thesis unfolding propose(2) by simp
  next
    case (accept pp n now pr)
    let ?t = "(put_instance n (with_proposal pp pr (instance_at now n s)) s)\<lparr>st_last_primary_activity := now\<rparr>"
    have t: "signer_ok P ?t" by (intro keep) (auto simp: proposed_put)
    have absent: "\<not> proposed n s" using accept(9) pre_prepare_at_proposed [of now n s] by simp
    have low: "st_low_watermark s < n" using accept(7) by (simp add: in_window_def)
    with absent assms(3) have fresh: "(v, n, d) \<notin> P" for v d
      unfolding signer_ok_def by blast
    have "signer_ok (insert (st_view ?t, n, pp_digest pp) P) ?t"
    proof (rule signer_ok_add [OF t])
      assume "primary ?t = Some (st_node_id ?t)"
      then have "primary s = Some (st_node_id s)" by (simp add: primary_def)
      then have "(pp_view pp, n, pp_digest pp) \<in> P"
        using assms(4) [OF accept(3)] accept by auto
      with fresh show "n \<le> st_sequence ?t" by blast
    qed (use fresh in \<open>auto simp: proposed_put\<close>)
    moreover have "P \<union> prepare_statements (st_node_id s) ({st_node_id s} \<times> statements es)
        = insert (st_view ?t, n, pp_digest pp) P"
      unfolding prepare_statements_own accept(1,11) by auto
    ultimately show ?thesis unfolding accept(2) by simp
  next
    case (stabilise n)
    with assms(2) show ?thesis
      by (auto simp: prepare_statements_def state_wf_def watermarks_ok_def proposed_def intro!: keep)
  next
    case (exhausted req)
    have "st_sequence s \<le> st_sequence s + 1"
      using exhausted(5) by (rule u64_le_succ)
    with exhausted show ?thesis
      by (auto simp: prepare_statements_def intro!: keep)
  next
    case (become_prepared n inst d cm)
    then show ?thesis
      by (auto simp: prepare_statements_def proposed_put intro!: keep)
  next
    case (add_prepare pr n inst now)
    then show ?thesis
      by (auto simp: prepare_statements_def proposed_put proposed_instance intro!: keep)
  next
    case (add_commit cm n inst now)
    then show ?thesis
      by (auto simp: prepare_statements_def proposed_put proposed_instance intro!: keep)
  next
    case (execute n inst req)
    then show ?thesis
      by (auto simp: prepare_statements_def proposed_put proposed_def intro!: keep)
  next
    case (finish n inst)
    then show ?thesis
      by (auto simp: prepare_statements_def proposed_put proposed_def intro!: keep)
  qed (use assms(3) in \<open>auto simp: prepare_statements_def proposed_def intro!: keep\<close>)
qed

section \<open>Stored votes\<close>

definition votes_authentic ::
  "node_id set \<Rightarrow> (node_id \<times> statement) set \<Rightarrow> ('sk, 'vk) pbft_state \<Rightarrow> bool" where
  "votes_authentic H S s \<longleftrightarrow>
     (\<forall>n inst j pr. hm_get (st_log s) n = Some inst \<longrightarrow> hm_get (ci_prepares inst) j = Some pr \<longrightarrow> j \<in> H \<longrightarrow>
        (j, PrepareStatement (pr_view pr) n (pr_digest pr)) \<in> S)"

lemma votes_authentic_mono: "votes_authentic H S s \<Longrightarrow> S \<subseteq> T \<Longrightarrow> votes_authentic H T s"
  unfolding votes_authentic_def by blast

lemma votes_authentic_at:
  "votes_authentic H S s \<Longrightarrow> hm_get (ci_prepares (instance_at now n s)) j = Some pr \<Longrightarrow> j \<in> H \<Longrightarrow>
   (j, PrepareStatement (pr_view pr) n (pr_digest pr)) \<in> S"
  by (auto simp: votes_authentic_def instance_at_def split: option.splits)

lemma votes_authentic_put:
  assumes "votes_authentic H S s" and "ci_prepares inst = ci_prepares (instance_at now n s)"
  shows "votes_authentic H S (put_instance n inst s)"
  using assms(1) votes_authentic_at [OF assms(1), of now n]
  by (auto simp: votes_authentic_def assms(2) split: if_splits)

lemma votes_authentic_insert:
  assumes "votes_authentic H S s"
    and "ci_prepares inst = hm_insert k pr (ci_prepares (instance_at now n s))"
    and "k \<in> H \<Longrightarrow> (k, PrepareStatement (pr_view pr) n (pr_digest pr)) \<in> S"
  shows "votes_authentic H S (put_instance n inst s)"
  using assms(1) votes_authentic_at [OF assms(1), of now n] assms(3)
  by (auto simp: votes_authentic_def assms(2) split: if_splits)

lemma votes_authentic_log:
  "votes_authentic H S s \<Longrightarrow> st_log t = st_log s \<Longrightarrow> votes_authentic H S t"
  by (simp add: votes_authentic_def)

lemma votes_authentic_retain:
  "votes_authentic H S s \<Longrightarrow> st_log t = hm_retain P (st_log s) \<Longrightarrow> votes_authentic H S t"
  by (auto simp: votes_authentic_def split: if_splits)

lemma atomic_votes_authentic:
  assumes "atomic L M s es s'" and "votes_authentic H S s"
    and "\<And>msg. msg \<in> M \<Longrightarrow> authentic L H S msg"
  shows "votes_authentic H (S \<union> {st_node_id s} \<times> statements es) s'"
proof -
  let ?S = "S \<union> {st_node_id s} \<times> statements es"
  have old: "votes_authentic H ?S s" by (rule votes_authentic_mono [OF assms(2)]) auto
  note log = votes_authentic_log [OF old] and put = votes_authentic_put [OF old]
    and insert = votes_authentic_insert [OF old]
  from assms(1) show ?thesis
  proof cases
    case (propose req n pp pr now)
    have "votes_authentic H ?S (put_instance n (with_proposal pp pr (instance_at now n s)) s)"
      by (rule insert [where now = now and k = "st_node_id s" and pr = pr]) (simp_all add: propose(1,8,9))
    then show ?thesis by (rule votes_authentic_log) (simp add: propose(2))
  next
    case (accept pp n now pr)
    have "votes_authentic H ?S (put_instance n (with_proposal pp pr (instance_at now n s)) s)"
      by (rule insert [where now = now and k = "st_node_id s" and pr = pr]) (simp_all add: accept(1,11))
    then show ?thesis by (rule votes_authentic_log) (simp add: accept(2))
  next
    case (add_prepare pr n inst now)
    have "(pr_replica_id pr, PrepareStatement (pr_view pr) n (pr_digest pr)) \<in> S" if "pr_replica_id pr \<in> H"
      using assms(3) [OF add_prepare(3)] that add_prepare(5,7) by (simp add: authentic_def)
    then show ?thesis unfolding add_prepare(2)
      by (intro insert [where now = now and k = "pr_replica_id pr" and pr = pr]) (simp_all add: add_prepare(8))
  next
    case (add_commit cm n inst now)
    then show ?thesis unfolding add_commit(2) by (intro put [where now = now]) simp
  next
    case (become_prepared n inst d cm)
    then show ?thesis unfolding become_prepared(2) by (intro put) (simp add: instance_at_present)
  next
    case (execute n inst req)
    have "votes_authentic H ?S (put_instance n (inst\<lparr>ci_phase := Committed\<rparr>) s)"
      using execute(3) by (intro put) (simp add: instance_at_present)
    then show ?thesis by (rule votes_authentic_log) (simp add: execute(2))
  next
    case (finish n inst)
    then show ?thesis unfolding finish(2) by (intro put) (simp add: instance_at_present)
  next
    case (stabilise n)
    then show ?thesis unfolding stabilise(2) by (intro votes_authentic_retain [OF old]) simp
  qed ((rule log, simp)+)
qed

section \<open>Invariants of the system\<close>

text \<open>What an event at one replica keeps, given the statements signed before it.\<close>

definition honest_history ::
  "('sk, 'vk) crypto_lib \<Rightarrow> node_id set \<Rightarrow> consensus_message set \<Rightarrow> (node_id \<times> statement) set \<Rightarrow> node_id
     \<Rightarrow> ('sk, 'vk) pbft_state \<Rightarrow> effect list \<Rightarrow> bool" where
  "honest_history L H M S k s h \<longleftrightarrow>
     crypto_ok L \<and> state_wf L s \<and> st_node_id s = k \<and> k \<in> H \<and> (\<forall>msg\<in>M. authentic L H S msg) \<and>
     votes_authentic H (S \<union> {k} \<times> statements h) s \<and>
     ((\<forall>pp. announces pp h \<longrightarrow> pp_sequence pp \<noteq> 0) \<longrightarrow>
        signer_ok (prepare_statements k (S \<union> {k} \<times> statements h)) s)"

lemma atomic_honest_history:
  assumes "honest_history L H M S k s h" and "atomic L M s es s'"
  shows "honest_history L H M S k s' (h @ es)"
proof -
  from assms(1) have c: "crypto_ok L" "state_wf L s" "st_node_id s = k" "k \<in> H"
    and m: "\<And>msg. msg \<in> M \<Longrightarrow> authentic L H S msg"
    and v: "votes_authentic H (S \<union> {k} \<times> statements h) s"
    and g: "(\<forall>pp. announces pp h \<longrightarrow> pp_sequence pp \<noteq> 0) \<Longrightarrow>
        signer_ok (prepare_statements k (S \<union> {k} \<times> statements h)) s"
    by (simp_all add: honest_history_def)
  have S': "S \<union> {k} \<times> statements (h @ es) = S \<union> {k} \<times> statements h \<union> {k} \<times> statements es"
    by auto
  have "votes_authentic H (S \<union> {k} \<times> statements (h @ es)) s'"
    unfolding S' using atomic_votes_authentic [OF assms(2) v] m c(3)
    by (auto intro: authentic_mono)
  moreover have "signer_ok (prepare_statements k (S \<union> {k} \<times> statements (h @ es))) s'"
    if z: "\<forall>pp. announces pp (h @ es) \<longrightarrow> pp_sequence pp \<noteq> 0"
  proof -
    have "signer_ok (prepare_statements k (S \<union> {k} \<times> statements h)) s"
      using z by (intro g) (auto simp: announces_def)
    then have "signer_ok (prepare_statements k (S \<union> {k} \<times> statements h)
        \<union> prepare_statements k ({k} \<times> statements es)) s'"
      using atomic_signer_ok [OF assms(2) c(2), of "prepare_statements k (S \<union> {k} \<times> statements h)"] z m c
      by (fastforce simp: announces_def authentic_def prepare_statements_def)
    then show ?thesis by (simp only: S' prepare_statements_Un)
  qed
  ultimately show ?thesis
    using c m atomic_state_wf [OF assms(2) c(1,2)] atomic_same_replica [OF assms(2)]
    by (simp add: honest_history_def same_replica_def)
qed

interpretation honest_inv: history_invariant "atomic L M" "honest_history L H M S k" for L M H S k
  by unfold_locales (rule atomic_honest_history)

text \<open>The invariant of the system after \<open>m\<close> events.\<close>

definition system_ok ::
  "('sk, 'vk) crypto_lib \<Rightarrow> node_id set \<Rightarrow> (node_id \<Rightarrow> ('sk, 'vk) keypair) \<Rightarrow> node_id list \<Rightarrow> nat
     \<Rightarrow> ('sk, 'vk) system \<Rightarrow> bool" where
  "system_ok L H keys replicas m y \<longleftrightarrow>
     (\<forall>i\<in>H. state_wf L (sys_nodes y i) \<and> st_node_id (sys_nodes y i) = i \<and>
        st_replicas (sys_nodes y i) = replicas \<and>
        st_config (sys_nodes y i) = pbft_config_new (of_nat (length replicas)) \<and>
        unat (st_sequence (sys_nodes y i)) \<le> m \<and>
        votes_authentic H (sys_signed y) (sys_nodes y i) \<and>
        signer_ok (prepare_statements i (sys_signed y)) (sys_nodes y i))"

lemma system_ok_init:
  assumes "correct_group L keys replicas f H"
  shows "system_ok L H keys replicas 0 (system_init clock keys replicas)"
proof -
  have "state_wf L (pbft_state_new (clock i) i (keys i) replicas c)" if "i \<in> H" for i c
    using state_wf_new [of L "keys i"] correct_groupD(7,8) [OF assms that] by metis
  then show ?thesis
    by (simp add: system_ok_def system_init_def votes_authentic_def signer_ok_def prepare_statements_def)
qed

lemma system_ok_step:
  assumes "correct_group L keys replicas f H" and "system_ok L H keys replicas m y"
    and "system_step L H D y y'" and "Suc m < 2 ^ 64"
  shows "system_ok L H keys replicas (Suc m) y'"
  using assms(3)
proof cases
  case 1: (event_at i ev r s' es)
  let ?s = "sys_nodes y i" and ?S = "sys_signed y"
  let ?S' = "?S \<union> {i} \<times> statements es"
  have ok: "state_wf L ?s" "st_node_id ?s = i" "unat (st_sequence ?s) \<le> m"
    "votes_authentic H ?S ?s" "signer_ok (prepare_statements i ?S) ?s"
    using assms(2) \<open>i \<in> H\<close> by (simp_all add: system_ok_def)
  have "unat (st_sequence ?s + 1) = (unat (st_sequence ?s) + 1) mod 2 ^ 64" by (simp add: unat_word_ariths)
  with ok(3) assms(4) have nz: "st_sequence ?s + 1 \<noteq> 0" by (auto simp: unat_eq_0 [symmetric])
  have tr: "etrace (atomic L (event_messages ev)) ?s es s'"
    using replica_step_trace [OF 1(5) subset_refl] .
  have "honest_history L H (event_messages ev) ?S i s' es"
    by (rule honest_inv.trace_from_start [OF tr])
      (use 1 ok correct_groupD(1) [OF assms(1)] in \<open>simp add: honest_history_def\<close>)
  moreover have "pp_sequence pp \<noteq> 0" if "announces pp es" for pp
    using replica_step_announces [OF 1(5) that] nz by simp
  ultimately have new: "state_wf L s'" "st_node_id s' = i" "votes_authentic H ?S' s'"
    "signer_ok (prepare_statements i ?S') s'"
    by (simp_all add: honest_history_def)
  have "unat (st_sequence s') \<le> Suc m"
    using replica_step_sequence [OF 1(5)] ok(3) by simp
  moreover have "votes_authentic H ?S' (sys_nodes y j)" if "j \<in> H" for j
    using assms(2) that by (auto simp: system_ok_def intro: votes_authentic_mono)
  moreover have "prepare_statements j ?S' = prepare_statements j ?S" if "j \<noteq> i" for j
    using that by (auto simp: prepare_statements_def)
  ultimately show ?thesis
    using new assms(2) trace_same_replica [OF tr] \<open>i \<in> H\<close> 1(1)
    by (auto simp: system_ok_def same_replica_def le_SucI)
qed

lemma system_ok_reach:
  assumes "correct_group L keys replicas f H"
    and "system_reach L H D (system_init clock keys replicas) m y" and "m < 2 ^ 64"
  shows "system_ok L H keys replicas m y"
  using assms(2,3)
proof (induction rule: system_reach.induct)
  case reach_init
  then show ?case using system_ok_init [OF assms(1)] by blast
next
  case (reach_step m y y')
  then show ?case using system_ok_step [OF assms(1)] by simp
qed

section \<open>Certificates agree\<close>

definition prepare_certificate ::
  "('sk, 'vk) pbft_state \<Rightarrow> view_number \<Rightarrow> sequence_number \<Rightarrow> hash \<Rightarrow> bool" where
  "prepare_certificate s v n d \<longleftrightarrow>
     (\<exists>inst. hm_get (st_log s) n = Some inst \<and>
        unat (quorum (st_config s)) \<le> card {j \<in> set (st_replicas s).
          \<exists>pr. hm_get (ci_prepares inst) j = Some pr \<and> pr_view pr = v \<and> pr_digest pr = d})"

lemma certificates_agree:
  assumes "correct_group L keys replicas f H" and "system_ok L H keys replicas m y"
    and "i \<in> H" and "j \<in> H"
    and "prepare_certificate (sys_nodes y i) v n d" and "prepare_certificate (sys_nodes y j) v n d'"
  shows "d = d'"
proof -
  note gr = correct_groupD [OF assms(1)]
  have card: "card (set replicas) = 3 * f + 1" "card (set replicas) < 2 ^ 64"
    "card (set replicas) = length replicas"
    using gr(2,3,4) by (simp_all add: distinct_card)
  have ok: "st_replicas (sys_nodes y k) = replicas"
    "unat (quorum (st_config (sys_nodes y k))) = code_quorum (card (set replicas))"
    "votes_authentic H (sys_signed y) (sys_nodes y k)"
    "signer_ok (prepare_statements k (sys_signed y)) (sys_nodes y k)" if "k \<in> H" for k
    using assms(2) that card(3) by (simp_all add: system_ok_def code_quorum_def)
  obtain ia where a: "hm_get (st_log (sys_nodes y i)) n = Some ia"
    and qa: "code_quorum (card (set replicas)) \<le> card {k \<in> set replicas.
      \<exists>pr. hm_get (ci_prepares ia) k = Some pr \<and> pr_view pr = v \<and> pr_digest pr = d}"
    using assms(5) ok(1,2) [OF assms(3)] by (auto simp: prepare_certificate_def)
  obtain ib where b: "hm_get (st_log (sys_nodes y j)) n = Some ib"
    and qb: "code_quorum (card (set replicas)) \<le> card {k \<in> set replicas.
      \<exists>pr. hm_get (ci_prepares ib) k = Some pr \<and> pr_view pr = v \<and> pr_digest pr = d'}"
    using assms(6) ok(1,2) [OF assms(4)] by (auto simp: prepare_certificate_def)
  obtain k pa pb where k: "k \<in> H" "hm_get (ci_prepares ia) k = Some pa" "pr_view pa = v" "pr_digest pa = d"
      "hm_get (ci_prepares ib) k = Some pb" "pr_view pb = v" "pr_digest pb = d'"
    using pbft.common_correct [OF finite_set card(1,2) gr(6) _ _ qa qb] by blast
  have signed: "(k, PrepareStatement (pr_view p) n (pr_digest p)) \<in> sys_signed y"
    if "l \<in> H" "hm_get (st_log (sys_nodes y l)) n = Some inst" "hm_get (ci_prepares inst) k = Some p" for l inst p
    using ok(3) [OF that(1)] that(2,3) k(1) unfolding votes_authentic_def by blast
  have "(k, PrepareStatement v n d) \<in> sys_signed y" "(k, PrepareStatement v n d') \<in> sys_signed y"
    using signed [OF assms(3) a k(2)] signed [OF assms(4) b k(5)] k by simp_all
  then show "d = d'"
    using ok(4) [OF k(1)] unfolding signer_ok_def prepare_statements_def by blast
qed

section \<open>Orderly delivery\<close>

text \<open>
  A prepare comes from a member of the group, after the pre-prepare for its sequence number has
  been accepted, and no new view is announced.
\<close>

fun orderly :: "event \<Rightarrow> ('sk, 'vk) pbft_state \<Rightarrow> bool" where
  "orderly (Receive now (Prepare pr)) s \<longleftrightarrow>
     pr_replica_id pr \<in> set (st_replicas s) \<and> proposed (pr_sequence pr) s"
| "orderly (Receive now (NewView nv)) s \<longleftrightarrow> False"
| "orderly ev s \<longleftrightarrow> True"

definition votes_match :: "('sk, 'vk) pbft_state \<Rightarrow> bool" where
  "votes_match s \<longleftrightarrow>
     (\<forall>n inst j pr. hm_get (st_log s) n = Some inst \<longrightarrow> hm_get (ci_prepares inst) j = Some pr \<longrightarrow>
        j \<in> set (st_replicas s) \<and> pr_view pr = 0 \<and>
        (\<exists>pp. ci_pre_prepare inst = Some pp \<and> pp_digest pp = pr_digest pr))"

definition own_proposals_counted :: "('sk, 'vk) pbft_state \<Rightarrow> bool" where
  "own_proposals_counted s \<longleftrightarrow>
     (primary s = Some (st_node_id s) \<longrightarrow> (\<forall>n. proposed n s \<longrightarrow> n \<le> st_sequence s))"

definition clean ::
  "consensus_message set \<Rightarrow> ('sk, 'vk) pbft_state \<Rightarrow> bool" where
  "clean M s \<longleftrightarrow>
     st_view s = 0 \<and> st_node_id s \<in> set (st_replicas s) \<and> votes_match s \<and> own_proposals_counted s \<and>
     (\<forall>nv. NewView nv \<notin> M) \<and>
     (\<forall>pr. Prepare pr \<in> M \<longrightarrow> pr_replica_id pr \<in> set (st_replicas s) \<and>
        (proposed (pr_sequence pr) s \<or> pr_sequence pr \<le> st_low_watermark s))"

lemma votes_match_at:
  "votes_match s \<Longrightarrow> hm_get (ci_prepares (instance_at now n s)) j = Some pr \<Longrightarrow>
   j \<in> set (st_replicas s) \<and> pr_view pr = 0 \<and>
     (\<exists>pp. ci_pre_prepare (instance_at now n s) = Some pp \<and> pp_digest pp = pr_digest pr)"
  by (auto simp: votes_match_def instance_at_def split: option.splits)

lemma votes_match_put:
  assumes "votes_match s"
    and "\<And>j pr. hm_get (ci_prepares inst) j = Some pr \<Longrightarrow> j \<in> set (st_replicas s) \<and> pr_view pr = 0 \<and>
      (\<exists>pp. ci_pre_prepare inst = Some pp \<and> pp_digest pp = pr_digest pr)"
  shows "votes_match (put_instance n inst s)"
  using assms unfolding votes_match_def by (simp split: if_splits)

lemma votes_match_log:
  "votes_match s \<Longrightarrow> st_log t = st_log s \<Longrightarrow> st_replicas t = st_replicas s \<Longrightarrow> votes_match t"
  by (simp add: votes_match_def)

lemma atomic_clean:
  assumes "atomic L M s es s'" and "clean M s" and "state_wf L s"
    and "\<And>pp. announces pp es \<Longrightarrow> pp_sequence pp \<noteq> 0"
    and "\<And>pp. PrePrepare pp \<in> M \<Longrightarrow> pp_view pp = st_view s \<Longrightarrow> primary s = Some (st_node_id s) \<Longrightarrow>
      pp_primary_id pp = st_node_id s \<Longrightarrow>
      verify_node_signature L (pp_primary_id pp)
        (as_bytes (prepare_sign_data (pp_view pp) (pp_sequence pp) (pp_digest pp))) (pp_signature pp) \<Longrightarrow>
      pp_sequence pp \<le> st_sequence s"
  shows "clean M s'"
proof -
  from assms(2) have v: "votes_match s" and o: "own_proposals_counted s"
    and c: "st_view s = 0" "st_node_id s \<in> set (st_replicas s)" "\<And>nv. NewView nv \<notin> M"
    and m: "\<And>pr. Prepare pr \<in> M \<Longrightarrow> pr_replica_id pr \<in> set (st_replicas s) \<and>
        (proposed (pr_sequence pr) s \<or> pr_sequence pr \<le> st_low_watermark s)"
    by (auto simp: clean_def)
  note at = votes_match_at [OF v] and put = votes_match_put [OF v]
  have same: "clean M t" if "st_log t = st_log s" "st_replicas t = st_replicas s" "st_view t = st_view s"
      "st_node_id t = st_node_id s" "st_low_watermark t = st_low_watermark s" "st_sequence s \<le> st_sequence t" for t
  proof -
    have pt: "proposed n t \<longleftrightarrow> proposed n s" for n using that(1) by (simp add: proposed_def)
    have "own_proposals_counted t"
      unfolding own_proposals_counted_def
    proof (intro impI allI)
      fix n
      assume "primary t = Some (st_node_id t)" and "proposed n t"
      then have "n \<le> st_sequence s"
        using o that pt by (simp add: own_proposals_counted_def primary_def)
      with that(6) show "n \<le> st_sequence t" by simp
    qed
    with assms(2) that pt votes_match_log [OF v that(1,2)] show ?thesis by (simp add: clean_def)
  qed
  have keep: "clean M (put_instance n inst s)"
    if "ci_pre_prepare inst \<noteq> None \<longleftrightarrow> proposed n s" "votes_match (put_instance n inst s)" for n inst
    using that o c m
    by (auto simp: clean_def own_proposals_counted_def proposed_put primary_def split: if_splits)
  from assms(1) show ?thesis
  proof cases
    case (propose req n pp pr now)
    have nz: "n \<noteq> 0" using assms(4) [of pp] propose by (auto simp: announces_def)
    then have less: "st_sequence s < n"
      using u64_less_succ [of "st_sequence s"] propose(6) by simp
    then have "\<not> proposed n s"
      using o propose(4) by (auto simp: own_proposals_counted_def)
    then have none: "ci_pre_prepare (instance_at now n s) = None"
      using pre_prepare_at_proposed [of now n s] by simp
    then have "hm_get (ci_prepares (instance_at now n s)) j = None" for j
      using at [of now n j] by (cases "hm_get (ci_prepares (instance_at now n s)) j") auto
    then have "votes_match (put_instance n (with_proposal pp pr (instance_at now n s)) s)"
      by (intro put) (auto simp: propose(8,9) c split: if_splits)
    with o c m less show ?thesis unfolding propose(2)
      by (auto simp: clean_def own_proposals_counted_def proposed_put primary_def votes_match_def)
  next
    case (accept pp n now pr)
    have "hm_get (ci_prepares (instance_at now n s)) j = None" for j
      using accept(9) at [of now n j] by (cases "hm_get (ci_prepares (instance_at now n s)) j") auto
    then have v': "votes_match (put_instance n (with_proposal pp pr (instance_at now n s)) s)"
      by (intro put) (auto simp: accept(11) c split: if_splits)
    have "n \<le> st_sequence s" if "primary s = Some (st_node_id s)"
      using assms(5) [OF accept(3)] accept that by simp
    with v' o c m show ?thesis unfolding accept(2)
      by (auto simp: clean_def own_proposals_counted_def proposed_put primary_def votes_match_def)
  next
    case (add_prepare pr n inst now)
    have "proposed n s" using m [OF add_prepare(3)] add_prepare(5,6) by (auto simp: in_window_def)
    then obtain pp where pp: "ci_pre_prepare inst = Some pp"
      using proposed_instance add_prepare(8) by blast
    then have "pp_digest pp = pr_digest pr" by (rule add_prepare(9))
    with pp have "votes_match (put_instance n (inst\<lparr>ci_prepares := hm_insert (pr_replica_id pr) pr (ci_prepares inst)\<rparr>) s)"
      using m [OF add_prepare(3)] at [of now n] add_prepare(4,8) c
      by (intro put) (auto split: if_splits)
    with pp \<open>proposed n s\<close> show ?thesis unfolding add_prepare(2) by (intro keep) simp_all
  next
    case (add_commit cm n inst now)
    have "votes_match (put_instance n (inst\<lparr>ci_commits := hm_insert (cm_replica_id cm) cm (ci_commits inst)\<rparr>) s)"
      using at [of now n] add_commit(8) by (intro put) auto
    then show ?thesis unfolding add_commit(2)
      using pre_prepare_at_proposed [of now n s] add_commit(8) by (intro keep) simp_all
  next
    case (become_prepared n inst d cm)
    have "votes_match (put_instance n
        (inst\<lparr>ci_phase := Prepared, ci_commits := hm_insert (st_node_id s) cm (ci_commits inst)\<rparr>) s)"
      using v become_prepared(3) by (intro put) (auto simp: votes_match_def)
    then show ?thesis unfolding become_prepared(2)
      using become_prepared(3) by (intro keep) (auto simp: proposed_def)
  next
    case (execute n inst req)
    have "votes_match (put_instance n (inst\<lparr>ci_phase := Committed\<rparr>) s)"
      using v execute(3) by (intro put) (auto simp: votes_match_def)
    then have "clean M (put_instance n (inst\<lparr>ci_phase := Committed\<rparr>) s)"
      using execute(3) by (intro keep) (auto simp: proposed_def)
    then show ?thesis unfolding execute(2)
      by (simp add: clean_def votes_match_def own_proposals_counted_def primary_def proposed_def)
  next
    case (finish n inst)
    have "votes_match (put_instance n (inst\<lparr>ci_phase := Committed\<rparr>) s)"
      using v finish(3) by (intro put) (auto simp: votes_match_def)
    then show ?thesis unfolding finish(2)
      using finish(3) by (intro keep) (auto simp: proposed_def)
  next
    case (stabilise n)
    have "st_low_watermark s < n"
      using stabilise(3) assms(3) by (simp add: state_wf_def watermarks_ok_def)
    with assms(2) show ?thesis unfolding stabilise(2)
      by (fastforce simp: clean_def votes_match_def own_proposals_counted_def proposed_def primary_def
          split: if_splits)
  next
    case (exhausted req)
    then show ?thesis by (intro same) (auto intro: u64_le_succ)
  next
    case (enter_view nv now)
    with c(3) show ?thesis by blast
  qed ((rule same, simp+)+)
qed

definition clean_history ::
  "('sk, 'vk) crypto_lib \<Rightarrow> node_id set \<Rightarrow> consensus_message set \<Rightarrow> (node_id \<times> statement) set \<Rightarrow> node_id
     \<Rightarrow> ('sk, 'vk) pbft_state \<Rightarrow> effect list \<Rightarrow> bool" where
  "clean_history L H M S k s h \<longleftrightarrow>
     honest_history L H M S k s h \<and>
     ((\<forall>pp. announces pp h \<longrightarrow> pp_sequence pp \<noteq> 0) \<longrightarrow> clean M s)"

lemma atomic_clean_history:
  assumes "clean_history L H M S k s h" and "atomic L M s es s'"
  shows "clean_history L H M S k s' (h @ es)"
proof -
  have h: "honest_history L H M S k s h" using assms(1) by (simp add: clean_history_def)
  have "clean M s'" if z: "\<forall>pp. announces pp (h @ es) \<longrightarrow> pp_sequence pp \<noteq> 0"
  proof (rule atomic_clean [OF assms(2)])
    have z': "\<forall>pp. announces pp h \<longrightarrow> pp_sequence pp \<noteq> 0" using z by (auto simp: announces_def)
    with assms(1) show "clean M s" by (simp add: clean_history_def)
    show "state_wf L s" using h by (simp add: honest_history_def)
    show "pp_sequence pp \<noteq> 0" if "announces pp es" for pp
      using z that by (auto simp: announces_def)
    fix pp
    assume pp: "PrePrepare pp \<in> M" "pp_view pp = st_view s" "primary s = Some (st_node_id s)"
      "pp_primary_id pp = st_node_id s"
      "verify_node_signature L (pp_primary_id pp)
        (as_bytes (prepare_sign_data (pp_view pp) (pp_sequence pp) (pp_digest pp))) (pp_signature pp)"
    then have "(k, PrepareStatement (pp_view pp) (pp_sequence pp) (pp_digest pp)) \<in> S"
      using h by (auto simp: honest_history_def authentic_def)
    then have "(pp_view pp, pp_sequence pp, pp_digest pp) \<in> prepare_statements k (S \<union> {k} \<times> statements h)"
      by (simp add: prepare_statements_def)
    moreover have "signer_ok (prepare_statements k (S \<union> {k} \<times> statements h)) s"
      using h z' by (simp add: honest_history_def)
    ultimately show "pp_sequence pp \<le> st_sequence s"
      using pp(2,3) unfolding signer_ok_def primary_def by metis
  qed
  with atomic_honest_history [OF h assms(2)] show ?thesis by (simp add: clean_history_def)
qed

interpretation clean_inv: history_invariant "atomic L M" "clean_history L H M S k" for L M H S k
  by unfold_locales (rule atomic_clean_history)

lemma orderly_clean:
  assumes "clean {} s" and "orderly ev s"
  shows "clean (event_messages ev) s"
proof (cases ev)
  case (Receive now msg)
  with assms show ?thesis by (cases msg) (auto simp: clean_def)
qed (use assms in \<open>simp_all add: clean_def\<close>)

lemma clean_step:
  assumes "correct_group L keys replicas f H" and "system_ok L H keys replicas m y"
    and "\<And>i. i \<in> H \<Longrightarrow> clean {} (sys_nodes y i)"
    and "system_step L H orderly y y'" and "Suc m < 2 ^ 64" and "i \<in> H"
  shows "clean {} (sys_nodes y' i)"
  using assms(4)
proof cases
  case 1: (event_at k ev r s' es)
  let ?s = "sys_nodes y k" and ?S = "sys_signed y"
  have ok: "state_wf L ?s" "st_node_id ?s = k" "unat (st_sequence ?s) \<le> m"
    "votes_authentic H ?S ?s" "signer_ok (prepare_statements k ?S) ?s"
    using assms(2) \<open>k \<in> H\<close> by (simp_all add: system_ok_def)
  have "unat (st_sequence ?s + 1) = (unat (st_sequence ?s) + 1) mod 2 ^ 64" by (simp add: unat_word_ariths)
  with ok(3) assms(5) have nz: "st_sequence ?s + 1 \<noteq> 0" by (auto simp: unat_eq_0 [symmetric])
  have "clean_history L H (event_messages ev) ?S k s' es"
    by (rule clean_inv.trace_from_start [OF replica_step_trace [OF 1(5) subset_refl]])
      (use 1 ok correct_groupD(1) [OF assms(1)] orderly_clean [OF assms(3) [OF 1(2)] 1(3)]
        in \<open>simp add: clean_history_def honest_history_def\<close>)
  moreover have "pp_sequence pp \<noteq> 0" if "announces pp es" for pp
    using replica_step_announces [OF 1(5) that] nz by simp
  ultimately have "clean {} s'" by (simp add: clean_history_def clean_def)
  with 1(1) assms(3) [OF assms(6)] show ?thesis by simp
qed

lemma clean_reach:
  assumes "correct_group L keys replicas f H"
    and "system_reach L H orderly (system_init clock keys replicas) m y" and "m < 2 ^ 64" and "i \<in> H"
  shows "clean {} (sys_nodes y i)"
  using assms(2,3,4)
proof (induction arbitrary: i rule: system_reach.induct)
  case reach_init
  then show ?case
    using correct_groupD(5) [OF assms(1)]
    by (auto simp: system_init_def clean_def votes_match_def own_proposals_counted_def proposed_def)
next
  case (reach_step m y y')
  have "m < 2 ^ 64" using reach_step.prems by simp
  with reach_step show ?case
    using clean_step [OF assms(1) system_ok_reach [OF assms(1) reach_step.hyps(1)], of y' i] by blast
qed

lemma clean_certificate:
  assumes "state_wf L s" and "clean {} s" and "hm_get (st_log s) n = Some inst"
    and "ci_phase inst = Prepared \<or> ci_phase inst = Committed"
  shows "\<exists>d. ci_digest inst = Some d \<and> prepare_certificate s 0 n d"
proof -
  have w: "instance_wf L (state_quorum s) (st_executed s) n inst"
    using assms(1,3) by (auto simp: state_wf_def dest: log_wfD)
  then obtain pp where pp: "ci_pre_prepare inst = Some pp" "ci_digest inst = Some (pp_digest pp)"
    using instance_certificates(3) [OF w] assms(4) by auto
  have "state_quorum s \<le> hm_len (ci_prepares inst)"
    using w assms(4) by (auto simp: instance_wf_def phase_wf_def)
  also have "\<dots> = card (hm_keys (ci_prepares inst))" by (rule hm_len_card)
  also have "hm_keys (ci_prepares inst) = {j \<in> set (st_replicas s).
      \<exists>pr. hm_get (ci_prepares inst) j = Some pr \<and> pr_view pr = 0 \<and> pr_digest pr = pp_digest pp}"
    using assms(2,3) pp(1) by (fastforce simp: clean_def votes_match_def hm_keys_def)
  finally show ?thesis
    using pp assms(3) by (auto simp: prepare_certificate_def state_quorum_def)
qed

section \<open>Properties\<close>

text \<open>
  C5. Certificates never conflict: whatever the network and up to \<open>f\<close> of \<open>3 f + 1\<close> replicas do,
  over fewer than \<open>2 ^ 64\<close> events, two correct replicas that hold, for one view and sequence
  number, a quorum of matching prepares of members hold them for the same digest.
\<close>

theorem prepare_certificates_agree:
  assumes "correct_group L keys replicas f H"
    and "system_reach L H (\<lambda>_ _. True) (system_init clock keys replicas) m y" and "m < 2 ^ 64"
    and "i \<in> H" and "j \<in> H"
    and "prepare_certificate (sys_nodes y i) v n d" and "prepare_certificate (sys_nodes y j) v n d'"
  shows "d = d'"
  using certificates_agree [OF assms(1) system_ok_reach [OF assms(1-3)] assms(4-)] .

text \<open>
  C1. Agreement: when prepares come from members and after the pre-prepare, and no new view is
  announced, two correct replicas never commit different digests at one sequence number, whatever
  else the network and up to \<open>f\<close> of \<open>3 f + 1\<close> replicas do.
\<close>

theorem committed_entries_agree:
  assumes "correct_group L keys replicas f H"
    and "system_reach L H orderly (system_init clock keys replicas) m y" and "m < 2 ^ 64"
    and "i \<in> H" and "j \<in> H"
    and "hm_get (st_log (sys_nodes y i)) n = Some a" and "ci_phase a = Committed"
    and "hm_get (st_log (sys_nodes y j)) n = Some b" and "ci_phase b = Committed"
  shows "\<exists>d. ci_digest a = Some d \<and> ci_digest b = Some d"
proof -
  note ok = system_ok_reach [OF assms(1-3)]
  have wf: "state_wf L (sys_nodes y k)" "clean {} (sys_nodes y k)" if "k \<in> H" for k
    using ok that clean_reach [OF assms(1-3) that] by (simp_all add: system_ok_def)
  obtain d where d: "ci_digest a = Some d" "prepare_certificate (sys_nodes y i) 0 n d"
    using clean_certificate [OF wf [OF assms(4)] assms(6)] assms(7) by auto
  obtain d' where d': "ci_digest b = Some d'" "prepare_certificate (sys_nodes y j) 0 n d'"
    using clean_certificate [OF wf [OF assms(5)] assms(8)] assms(9) by auto
  have "d = d'" by (rule certificates_agree [OF assms(1) ok assms(4,5) d(2) d'(2)])
  with d d' show ?thesis by simp
qed

end
