(* ===== verification/Delivery.thy ===== *)
theory Delivery
  imports Replica_Progress Scenarios Agreement
begin

text \<open>
  Liveness of one consensus instance at one replica: the votes recorded for a proposal determine
  its phase, and once the pre-prepare and quorums of matching prepares and commits have arrived,
  in any order and with any repetitions, the request is delivered, exactly once.
\<close>

section \<open>The messages of one instance\<close>

definition good_pre_prepare ::
  "('sk, 'vk) crypto_lib \<Rightarrow> node_id list \<Rightarrow> pre_prepare \<Rightarrow> bool" where
  "good_pre_prepare L replicas pp \<longleftrightarrow>
     pp_view pp = 0 \<and> primary_of replicas 0 = Some (pp_primary_id pp) \<and>
     0 < pp_sequence pp \<and> pp_sequence pp \<le> 200 \<and> request_digest L (pp_request pp) = pp_digest pp \<and>
     verify_node_signature L (pp_primary_id pp)
       (as_bytes (prepare_sign_data (pp_view pp) (pp_sequence pp) (pp_digest pp))) (pp_signature pp)"

definition good_prepare :: "('sk, 'vk) crypto_lib \<Rightarrow> pre_prepare \<Rightarrow> prepare \<Rightarrow> bool" where
  "good_prepare L pp pr \<longleftrightarrow>
     pr_view pr = 0 \<and> pr_sequence pr = pp_sequence pp \<and> pr_digest pr = pp_digest pp \<and>
     verify_node_signature L (pr_replica_id pr)
       (as_bytes (prepare_sign_data (pr_view pr) (pr_sequence pr) (pr_digest pr))) (pr_signature pr)"

definition good_commit :: "('sk, 'vk) crypto_lib \<Rightarrow> pre_prepare \<Rightarrow> commit \<Rightarrow> bool" where
  "good_commit L pp cm \<longleftrightarrow>
     cm_view cm = 0 \<and> cm_sequence cm = pp_sequence pp \<and> cm_digest cm = pp_digest pp \<and>
     verify_node_signature L (cm_replica_id cm)
       (as_bytes (commit_sign_data (cm_view cm) (cm_sequence cm) (cm_digest cm))) (cm_signature cm)"

definition instance_messages :: "('sk, 'vk) crypto_lib \<Rightarrow> pre_prepare \<Rightarrow> consensus_message set" where
  "instance_messages L pp =
     {PrePrepare pp} \<union> Prepare ` {pr. good_prepare L pp pr} \<union> Commit ` {cm. good_commit L pp cm}"

lemma instance_messages_iff [simp]:
  "PrePrepare q \<in> instance_messages L pp \<longleftrightarrow> q = pp"
  "Prepare pr \<in> instance_messages L pp \<longleftrightarrow> good_prepare L pp pr"
  "Commit cm \<in> instance_messages L pp \<longleftrightarrow> good_commit L pp cm"
  "Request req \<notin> instance_messages L pp" "Checkpoint cp \<notin> instance_messages L pp"
  "NewView nv \<notin> instance_messages L pp" "ViewChange vc \<notin> instance_messages L pp"
  by (auto simp: instance_messages_def)

section \<open>What the instance keeps\<close>

definition entry_for :: "pre_prepare \<Rightarrow> node_id \<Rightarrow> consensus_instance \<Rightarrow> bool" where
  "entry_for pp me inst \<longleftrightarrow>
     (ci_pre_prepare inst = None \<and> ci_digest inst = None \<and> ci_request inst = None \<and> ci_phase inst = Idle \<or>
      ci_pre_prepare inst = Some pp \<and> ci_digest inst = Some (pp_digest pp) \<and>
        ci_request inst = Some (pp_request pp) \<and> hm_get (ci_prepares inst) me \<noteq> None \<and>
        (ci_phase inst = Prepared \<or> ci_phase inst = Committed \<longrightarrow> hm_get (ci_commits inst) me \<noteq> None))"

definition only_instance :: "pre_prepare \<Rightarrow> ('sk, 'vk) pbft_state \<Rightarrow> effect list \<Rightarrow> bool" where
  "only_instance pp s h \<longleftrightarrow>
     st_view s = 0 \<and> st_low_watermark s = 0 \<and> st_high_watermark s = 200 \<and> st_checkpoints s = hm_new \<and>
     (\<forall>n inst. hm_get (st_log s) n = Some inst \<longrightarrow> n = pp_sequence pp \<and> entry_for pp (st_node_id s) inst) \<and>
     (\<forall>req \<in> set (executed_requests h). req = pp_request pp)"

text \<open>Votes and proposals stay once they are in.\<close>

definition log_grows :: "('sk, 'vk) pbft_state \<Rightarrow> ('sk, 'vk) pbft_state \<Rightarrow> bool" where
  "log_grows s t \<longleftrightarrow>
     (\<forall>n inst. hm_get (st_log s) n = Some inst \<longrightarrow>
        (\<exists>inst'. hm_get (st_log t) n = Some inst' \<and>
           hm_keys (ci_prepares inst) \<subseteq> hm_keys (ci_prepares inst') \<and>
           hm_keys (ci_commits inst) \<subseteq> hm_keys (ci_commits inst') \<and>
           (ci_pre_prepare inst \<noteq> None \<longrightarrow> ci_pre_prepare inst' \<noteq> None)))"

lemma log_grows_refl: "log_grows s s"
  by (simp add: log_grows_def)

lemma log_grows_trans: "log_grows s t \<Longrightarrow> log_grows t u \<Longrightarrow> log_grows s u"
  unfolding log_grows_def by (meson subset_trans)

lemma log_grows_log: "st_log t = st_log s \<Longrightarrow> log_grows s t"
  by (simp add: log_grows_def)

lemma log_grows_put:
  assumes "hm_keys (ci_prepares (instance_at now n s)) \<subseteq> hm_keys (ci_prepares inst)"
    and "hm_keys (ci_commits (instance_at now n s)) \<subseteq> hm_keys (ci_commits inst)"
    and "ci_pre_prepare (instance_at now n s) \<noteq> None \<longrightarrow> ci_pre_prepare inst \<noteq> None"
    and "st_log t = hm_insert n inst (st_log s)"
  shows "log_grows s t"
  unfolding log_grows_def
proof (intro allI impI)
  fix m i
  assume i: "hm_get (st_log s) m = Some i"
  show "\<exists>inst'. hm_get (st_log t) m = Some inst' \<and>
           hm_keys (ci_prepares i) \<subseteq> hm_keys (ci_prepares inst') \<and>
           hm_keys (ci_commits i) \<subseteq> hm_keys (ci_commits inst') \<and>
           (ci_pre_prepare i \<noteq> None \<longrightarrow> ci_pre_prepare inst' \<noteq> None)"
  proof (cases "m = n")
    case True
    with i have "instance_at now n s = i" by (simp add: instance_at_present)
    with True assms show ?thesis by simp
  next
    case False
    with i assms(4) show ?thesis by simp
  qed
qed

lemma log_grows_keeps:
  assumes "log_grows s t"
  shows "prepare_recorded n i s \<Longrightarrow> prepare_recorded n i t"
    and "commit_recorded n i s \<Longrightarrow> commit_recorded n i t"
    and "proposed n s \<Longrightarrow> proposed n t"
proof -
  show "prepare_recorded n i t" if "prepare_recorded n i s"
  proof -
    from that obtain a where a: "hm_get (st_log s) n = Some a" "i \<in> hm_keys (ci_prepares a)"
      by (auto simp: prepare_recorded_def hm_keys_def)
    with assms obtain b where "hm_get (st_log t) n = Some b" "hm_keys (ci_prepares a) \<subseteq> hm_keys (ci_prepares b)"
      unfolding log_grows_def by blast
    with a(2) show ?thesis by (auto simp: prepare_recorded_def hm_keys_def)
  qed
  show "commit_recorded n i t" if "commit_recorded n i s"
  proof -
    from that obtain a where a: "hm_get (st_log s) n = Some a" "i \<in> hm_keys (ci_commits a)"
      by (auto simp: commit_recorded_def hm_keys_def)
    with assms obtain b where "hm_get (st_log t) n = Some b" "hm_keys (ci_commits a) \<subseteq> hm_keys (ci_commits b)"
      unfolding log_grows_def by blast
    with a(2) show ?thesis by (auto simp: commit_recorded_def hm_keys_def)
  qed
  show "proposed n t" if "proposed n s"
    using assms that unfolding log_grows_def proposed_def by blast
qed

lemma atomic_log_grows:
  assumes "atomic L M s es s'" and "\<And>n. checkpoint_count n s < unat (quorum (st_config s))"
  shows "log_grows s s'"
  using assms(1)
proof cases
  case (propose req n pp pr now)
  show ?thesis
    by (rule log_grows_put [where now = now and n = n and inst = "with_proposal pp pr (instance_at now n s)"])
      (auto simp: propose(2))
next
  case (accept pp n now pr)
  show ?thesis
    by (rule log_grows_put [where now = now and n = n and inst = "with_proposal pp pr (instance_at now n s)"])
      (auto simp: accept(2))
next
  case (add_prepare pr n inst now)
  show ?thesis
    by (rule log_grows_put [where now = now and n = n]) (auto simp: add_prepare(2,8))
next
  case (add_commit cm n inst now)
  show ?thesis
    by (rule log_grows_put [where now = now and n = n]) (auto simp: add_commit(2,8))
next
  case (become_prepared n inst d cm)
  show ?thesis
    by (rule log_grows_put [where now = 0 and n = n])
      (auto simp: become_prepared(2) instance_at_present [OF become_prepared(3)])
next
  case (execute n inst req)
  show ?thesis
    by (rule log_grows_put [where now = 0 and n = n and inst = "inst\<lparr>ci_phase := Committed\<rparr>"])
      (auto simp: execute(2) instance_at_present [OF execute(3)])
next
  case (finish n inst)
  show ?thesis
    by (rule log_grows_put [where now = 0 and n = n and inst = "inst\<lparr>ci_phase := Committed\<rparr>"])
      (auto simp: finish(2) instance_at_present [OF finish(3)])
next
  case (stabilise n)
  with assms(2) [of n] show ?thesis by simp
qed (auto intro: log_grows_log)

lemma entry_for_updates:
  assumes "entry_for pp me inst"
  shows "entry_for pp me (inst\<lparr>ci_prepares := hm_insert i pr (ci_prepares inst)\<rparr>)"
    and "entry_for pp me (inst\<lparr>ci_commits := hm_insert i cm (ci_commits inst)\<rparr>)"
    and "ci_pre_prepare inst \<noteq> None \<Longrightarrow>
      entry_for pp me (inst\<lparr>ci_phase := Prepared, ci_commits := hm_insert me cm (ci_commits inst)\<rparr>)"
    and "ci_phase inst = Prepared \<Longrightarrow> entry_for pp me (inst\<lparr>ci_phase := Committed\<rparr>)"
  using assms by (auto simp: entry_for_def)

lemma only_instance_put:
  assumes "only_instance pp s h" and "n = pp_sequence pp" and "entry_for pp (st_node_id s) inst"
  shows "only_instance pp (put_instance n inst s) h"
  using assms by (simp add: only_instance_def)

lemma only_instance_at:
  assumes "only_instance pp s h"
  shows "entry_for pp (st_node_id s) (instance_at now n s)"
  using assms by (cases "hm_get (st_log s) n") (simp_all add: only_instance_def instance_at_def entry_for_def)

lemma only_instance_frame:
  assumes "only_instance pp s h" and "st_log t = st_log s" "st_view t = st_view s"
    "st_low_watermark t = st_low_watermark s" "st_high_watermark t = st_high_watermark s"
    "st_checkpoints t = st_checkpoints s" "st_node_id t = st_node_id s"
    "executed_requests es = []"
  shows "only_instance pp t (h @ es)"
  using assms by (simp add: only_instance_def)

lemma atomic_only_instance:
  assumes "atomic L (instance_messages L pp) s es s'" and "only_instance pp s h"
  shows "only_instance pp s' (h @ es)"
proof -
  note put = only_instance_put [OF assms(2)] and at = only_instance_at [OF assms(2)]
    and frame = only_instance_frame [OF assms(2)]
  have entry: "n = pp_sequence pp \<and> entry_for pp (st_node_id s) inst"
    if "hm_get (st_log s) n = Some inst" for n inst
    using assms(2) that by (simp add: only_instance_def)
  from assms(1) show ?thesis
  proof cases
    case (accept q n now pr)
    then have q: "q = pp" by simp
    have "only_instance pp (put_instance n (with_proposal q pr (instance_at now n s)) s) h"
      using at [of now n] accept(5,6,11) q
      by (intro put) (simp_all add: entry_for_def)
    then show ?thesis unfolding accept(1,2) by (rule only_instance_frame) simp_all
  next
    case (add_prepare pr n inst now)
    have "n = pp_sequence pp" using add_prepare(3,5) by (simp add: good_prepare_def)
    then have "only_instance pp s' h" unfolding add_prepare(2)
      using at [of now n] add_prepare(8) by (simp add: put entry_for_updates(1))
    then show ?thesis by (simp add: add_prepare(1))
  next
    case (add_commit cm n inst now)
    have "n = pp_sequence pp" using add_commit(3,5) by (simp add: good_commit_def)
    then have "only_instance pp s' h" unfolding add_commit(2)
      using at [of now n] add_commit(8) by (simp add: put entry_for_updates(2))
    then show ?thesis by (simp add: add_commit(1))
  next
    case (become_prepared n inst d cm)
    have "only_instance pp s' h" unfolding become_prepared(2)
      using entry [OF become_prepared(3)] become_prepared(4) by (simp add: put entry_for_updates(3))
    then show ?thesis unfolding become_prepared(1,2) by (rule only_instance_frame) simp_all
  next
    case (execute n inst req)
    have e: "n = pp_sequence pp" "entry_for pp (st_node_id s) inst" using entry [OF execute(3)] by simp_all
    then have req: "req = pp_request pp" using execute(6) by (auto simp: entry_for_def)
    have "only_instance pp (put_instance n (inst\<lparr>ci_phase := Committed\<rparr>) s) h"
      using e execute(4) by (simp add: put entry_for_updates(4))
    then show ?thesis unfolding execute(1,2) using req by (simp add: only_instance_def)
  next
    case (finish n inst)
    have "only_instance pp s' h" unfolding finish(2)
      using entry [OF finish(3)] finish(4) by (simp add: put entry_for_updates(4))
    then show ?thesis by (simp add: finish(1))
  next
    case (stabilise n)
    have "checkpoint_count n s = 0"
      using assms(2) by (simp add: only_instance_def checkpoint_count_def)
    with stabilise(4) quorum_positive [of "st_config s"] show ?thesis by simp
  next
    case (send_checkpoint n cp)
    then show ?thesis by (intro frame) simp_all
  next
    case (announce_view nv)
    then show ?thesis by (intro frame) simp_all
  next
    case (begin_view_change vc)
    then show ?thesis by (intro frame) simp_all
  qed simp_all
qed

interpretation instance_inv: history_invariant "atomic L (instance_messages L pp)"
  "\<lambda>s h. only_instance pp s h \<and> log_grows s0 s" for L pp s0
proof unfold_locales
  fix s h es s'
  assume a: "only_instance pp s h \<and> log_grows s0 s" and b: "atomic L (instance_messages L pp) s es s'"
  then have "checkpoint_count n s < unat (quorum (st_config s))" for n
    using quorum_positive by (simp add: only_instance_def checkpoint_count_def)
  then have "log_grows s s'" by (rule atomic_log_grows [OF b])
  with a show "only_instance pp s' (h @ es) \<and> log_grows s0 s'"
    using atomic_only_instance [OF b] log_grows_trans by blast
qed

section \<open>Delivered messages leave their mark\<close>

definition instance_ready ::
  "('sk, 'vk) crypto_lib \<Rightarrow> node_id list \<Rightarrow> pre_prepare \<Rightarrow> ('sk, 'vk) pbft_state \<Rightarrow> effect list \<Rightarrow> bool" where
  "instance_ready L replicas pp s h \<longleftrightarrow>
     crypto_ok L \<and> state_wf L s \<and> ready s \<and> st_replicas s = replicas \<and> good_pre_prepare L replicas pp \<and>
     only_instance pp s h"

lemma instance_step:
  assumes "instance_ready L replicas pp s h" and "msg \<in> instance_messages L pp"
    and "replica_step L (Receive now msg) s = (r, s', es)"
  shows "instance_ready L replicas pp s' (h @ es)" and "log_grows s s'"
proof -
  note i = assms(1) [unfolded instance_ready_def]
  have tr: "etrace (atomic L (instance_messages L pp)) s es s'"
    by (rule replica_step_trace [OF assms(3)]) (use assms(2) in simp)
  have "only_instance pp s' (h @ es) \<and> log_grows s s'"
    by (rule instance_inv.trace_keeps [OF tr]) (use i log_grows_refl in simp)
  then show "instance_ready L replicas pp s' (h @ es)" and "log_grows s s'"
    using i replica_step_state_wf [OF assms(3)] trace_ready [OF tr] trace_same_replica [OF tr]
    by (simp_all add: instance_ready_def same_replica_def)
qed

lemma instance_window:
  "instance_ready L replicas pp s h \<Longrightarrow> in_window (pp_sequence pp) s \<and> st_view s = 0"
  by (simp add: instance_ready_def good_pre_prepare_def only_instance_def in_window_def)

lemma instance_entry:
  "instance_ready L replicas pp s h \<Longrightarrow> hm_get (st_log s) n = Some inst \<Longrightarrow> entry_for pp (st_node_id s) inst"
  by (simp add: instance_ready_def only_instance_def)

lemma deliver_prepare:
  assumes "instance_ready L replicas pp s h" and "good_prepare L pp pr"
    and "handle_prepare L now pr s = (r, s', es)"
  shows "prepare_recorded (pp_sequence pp) (pr_replica_id pr) s'"
proof -
  note i = assms(1) [unfolded instance_ready_def] and g = assms(2) [unfolded good_prepare_def]
  obtain x t where x: "handle_prepare_section L now pr s = (x, t)" by fastforce
  then have "r \<noteq> Err e" for e
  proof (cases rule: handle_prepare_section_cases)
    case (conflict inst q)
    then show ?thesis using instance_entry [OF assms(1) conflict(3)] g by (simp add: entry_for_def)
  next
    case (add n inst)
    then show ?thesis using x assms(3) advance_not_Err(2) [of L n t e] by (auto simp: handle_prepare_def)
  qed (use x assms(3) g instance_window [OF assms(1)] in \<open>auto simp: handle_prepare_def\<close>)
  moreover have "r \<noteq> Panic"
    using handle_prepare_no_panic [of L s now pr] i assms(3) by simp
  ultimately have "r = Ok ()" by (cases r) auto
  with handle_prepare_records assms(3) g show ?thesis by metis
qed

lemma deliver_commit:
  assumes "instance_ready L replicas pp s h" and "good_commit L pp cm"
    and "handle_commit L now cm s = (r, s', es)"
  shows "commit_recorded (pp_sequence pp) (cm_replica_id cm) s'"
proof -
  note i = assms(1) [unfolded instance_ready_def] and g = assms(2) [unfolded good_commit_def]
  obtain x t where x: "handle_commit_section L now cm s = (x, t)" by fastforce
  then have "r \<noteq> Err e" for e
  proof (cases rule: handle_commit_section_cases)
    case (conflict inst d)
    then show ?thesis using instance_entry [OF assms(1) conflict(3)] g by (auto simp: entry_for_def)
  next
    case (add n inst)
    then show ?thesis using x assms(3) advance_not_Err(1) [of L n t e] by (auto simp: handle_commit_def)
  qed (use x assms(3) g instance_window [OF assms(1)] in \<open>auto simp: handle_commit_def\<close>)
  moreover have "r \<noteq> Panic"
    using handle_commit_no_panic [of s L now cm] i assms(3) by simp
  ultimately have "r = Ok ()" by (cases r) auto
  with handle_commit_records assms(3) g show ?thesis by metis
qed

lemma deliver_pre_prepare:
  assumes "instance_ready L replicas pp s h" and "handle_pre_prepare L now pp s = (r, s', es)"
  shows "proposed (pp_sequence pp) s'"
proof -
  note i = assms(1) [unfolded instance_ready_def]
  from i have g: "pp_view pp = 0" "primary_of replicas 0 = Some (pp_primary_id pp)"
    "request_digest L (pp_request pp) = pp_digest pp"
    "verify_node_signature L (pp_primary_id pp)
       (as_bytes (prepare_sign_data (pp_view pp) (pp_sequence pp) (pp_digest pp))) (pp_signature pp)"
    unfolding good_pre_prepare_def by blast+
  have p: "primary s = Some (pp_primary_id pp)"
    using g i instance_window [OF assms(1)] by (simp add: primary_def)
  obtain x t where x: "handle_pre_prepare_section L now pp s = (x, t)" by fastforce
  then show ?thesis
  proof (cases rule: handle_pre_prepare_section_cases)
    case (known r' inst)
    with x assms(2) show ?thesis by (auto simp: handle_pre_prepare_def proposed_def)
  next
    case (accept n pr)
    have a: "atomic L (instance_messages L pp) s [Out (Broadcast (Consensus (Prepare pr)))] t"
      unfolding accept(10) by (rule atomic.accept) (use accept in simp_all)
    have o: "only_instance pp t (h @ [Out (Broadcast (Consensus (Prepare pr)))]) \<and> log_grows t t"
      using atomic_only_instance [OF a] i log_grows_refl by blast
    from x accept(1) assms(2) obtain fs where f: "try_advance_to_prepared L (pr_sequence pr) t = (r, s', fs)"
      by (auto simp: handle_pre_prepare_def emit_eq_iff)
    have "log_grows t s'"
      using instance_inv.trace_keeps [OF try_advance_to_prepared_trace [OF f] o] by simp
    moreover have "proposed (pp_sequence pp) t"
      using accept(2) by (simp add: accept(10) proposed_put)
    ultimately show ?thesis by (rule log_grows_keeps(3))
  qed (use x g p i instance_window [OF assms(1)] in \<open>auto simp: ready_def\<close>)
qed

definition delivered :: "event list \<Rightarrow> consensus_message \<Rightarrow> bool" where
  "delivered evs msg \<longleftrightarrow> msg \<in> \<Union> (event_messages ` set evs)"

lemma instance_run:
  assumes "instance_ready L replicas pp s h"
    and "\<And>ev. ev \<in> set evs \<Longrightarrow> \<exists>now msg. ev = Receive now msg \<and> msg \<in> instance_messages L pp"
    and "replica_run L evs s = (alive, s', es)"
  shows "instance_ready L replicas pp s' (h @ es) \<and> log_grows s s' \<and>
    (delivered evs (PrePrepare pp) \<longrightarrow> proposed (pp_sequence pp) s') \<and>
    (\<forall>pr. delivered evs (Prepare pr) \<longrightarrow> prepare_recorded (pp_sequence pp) (pr_replica_id pr) s') \<and>
    (\<forall>cm. delivered evs (Commit cm) \<longrightarrow> commit_recorded (pp_sequence pp) (cm_replica_id cm) s')"
  using assms
proof (induction evs arbitrary: s h alive s' es)
  case Nil
  then show ?case by (simp add: delivered_def log_grows_refl)
next
  case (Cons ev evs)
  obtain now msg where ev: "ev = Receive now msg" and m: "msg \<in> instance_messages L pp"
    using Cons.prems(2) by (metis list.set_intros(1))
  obtain r t fs where st: "replica_step L (Receive now msg) s = (r, t, fs)" using prod_cases3 by blast
  obtain al u gs where ru: "replica_run L evs t = (al, u, gs)" using prod_cases3 by blast
  note stp = instance_step [OF Cons.prems(1) m st]
  have "r \<noteq> Panic"
    using replica_step_no_panic [of L s "Receive now msg"] st Cons.prems(1) by (simp add: instance_ready_def)
  with Cons.prems(3) ev st ru have eq: "s' = u" "es = fs @ gs" by (cases r; simp)+
  have ih: "instance_ready L replicas pp u ((h @ fs) @ gs) \<and> log_grows t u \<and>
    (delivered evs (PrePrepare pp) \<longrightarrow> proposed (pp_sequence pp) u) \<and>
    (\<forall>pr. delivered evs (Prepare pr) \<longrightarrow> prepare_recorded (pp_sequence pp) (pr_replica_id pr) u) \<and>
    (\<forall>cm. delivered evs (Commit cm) \<longrightarrow> commit_recorded (pp_sequence pp) (cm_replica_id cm) u)"
    by (rule Cons.IH [OF stp(1) _ ru]) (use Cons.prems(2) in simp)
  then have g: "log_grows t u" by blast
  have "proposed (pp_sequence pp) t" if "msg = PrePrepare pp"
    using deliver_pre_prepare [OF Cons.prems(1)] st that by (simp add: replica_step_def process_message_def)
  moreover have "prepare_recorded (pp_sequence pp) (pr_replica_id pr) t" if "msg = Prepare pr" for pr
    using deliver_prepare [OF Cons.prems(1)] st that m by (simp add: replica_step_def process_message_def)
  moreover have "commit_recorded (pp_sequence pp) (cm_replica_id cm) t" if "msg = Commit cm" for cm
    using deliver_commit [OF Cons.prems(1)] st that m by (simp add: replica_step_def process_message_def)
  ultimately show ?case
    using ih log_grows_trans [OF stp(2) g] log_grows_keeps [OF g] eq
    by (auto simp: delivered_def ev)
qed

lemma decided_phase:
  assumes "state_wf L s" and "settled s" and "hm_get (st_log s) n = Some inst"
    and "ci_pre_prepare inst = Some pp"
  shows "ci_phase inst =
    (if card (prepare_voters L n inst) < state_quorum s then PrePrepared
     else if card (commit_voters L n inst) < state_quorum s then Prepared else Committed)"
proof -
  have w: "instance_wf L (state_quorum s) (st_executed s) n inst"
    using assms(1,3) by (auto simp: state_wf_def dest: log_wfD)
  then have v: "votes_wf L n inst" and "ci_phase inst \<noteq> Idle"
    using assms(4) by (simp_all add: instance_wf_def proposal_wf_def)
  moreover have "entry_settled (state_quorum s) inst"
    using assms(2,3) by (simp add: settled_but_def)
  ultimately show ?thesis
    using w by (cases "ci_phase inst")
      (auto simp: voters_len [OF v] entry_settled_def instance_wf_def phase_wf_def)
qed

lemma instance_committed:
  assumes "instance_ready L replicas pp s h" and "settled s" and "proposed (pp_sequence pp) s"
    and "\<And>i. i \<in> A \<Longrightarrow> prepare_recorded (pp_sequence pp) i s"
    and "\<And>i. i \<in> B \<Longrightarrow> commit_recorded (pp_sequence pp) i s"
    and "state_quorum s \<le> card (insert (st_node_id s) A)"
    and "state_quorum s \<le> card (insert (st_node_id s) B)"
  shows "\<exists>inst. hm_get (st_log s) (pp_sequence pp) = Some inst \<and> ci_phase inst = Committed \<and>
    ci_digest inst = Some (pp_digest pp)"
proof -
  note i = assms(1) [unfolded instance_ready_def]
  obtain inst where inst: "hm_get (st_log s) (pp_sequence pp) = Some inst" "ci_pre_prepare inst \<noteq> None"
    using assms(3) by (auto simp: proposed_def)
  then have e: "entry_for pp (st_node_id s) inst" and w: "votes_wf L (pp_sequence pp) inst"
    using instance_entry [OF assms(1)] i by (auto simp: state_wf_def instance_wf_def dest: log_wfD)
  then have pp: "ci_pre_prepare inst = Some pp" "ci_digest inst = Some (pp_digest pp)"
    using inst(2) by (auto simp: entry_for_def)
  note ph = decided_phase [OF _ assms(2) inst(1) pp(1), of L]
  have "insert (st_node_id s) A \<subseteq> hm_keys (ci_prepares inst)"
    using e inst assms(4) by (auto simp: entry_for_def prepare_recorded_def hm_keys_def)
  then have "card (insert (st_node_id s) A) \<le> card (prepare_voters L (pp_sequence pp) inst)"
    unfolding voters_len [OF w] hm_len_card by (intro card_mono) simp_all
  with assms(6) ph i have "ci_phase inst = Prepared \<or> ci_phase inst = Committed" by auto
  then have "insert (st_node_id s) B \<subseteq> hm_keys (ci_commits inst)"
    using e inst assms(5) by (auto simp: entry_for_def commit_recorded_def hm_keys_def)
  then have "card (insert (st_node_id s) B) \<le> card (commit_voters L (pp_sequence pp) inst)"
    unfolding voters_len [OF w] hm_len_card by (intro card_mono) simp_all
  with assms(6,7) ph i \<open>card (insert (st_node_id s) A) \<le> _\<close> have "ci_phase inst = Committed" by auto
  with inst pp show ?thesis by blast
qed

text \<open>The messages of one instance, delivered with quorums, execute its request.\<close>

lemma instance_run_delivers:
  assumes "crypto_ok L" and "keypair_wf L kp" and "me = public_key_hex L kp"
    and "good_pre_prepare L replicas pp"
    and "\<And>ev. ev \<in> set evs \<Longrightarrow> \<exists>t msg. ev = Receive t msg \<and> msg \<in> instance_messages L pp"
    and "delivered evs (PrePrepare pp)"
    and "unat (quorum (pbft_config_new n)) \<le> card (insert me {pr_replica_id pr |pr. delivered evs (Prepare pr)})"
    and "unat (quorum (pbft_config_new n)) \<le> card (insert me {cm_replica_id cm |cm. delivered evs (Commit cm)})"
  shows "\<exists>s es inst. replica_run L evs (pbft_state_new now me kp replicas (pbft_config_new n)) = (True, s, es) \<and>
    executed_requests es = [pp_request pp] \<and>
    hm_get (st_log s) (pp_sequence pp) = Some inst \<and> ci_phase inst = Committed \<and>
    ci_digest inst = Some (pp_digest pp)"
proof -
  let ?s0 = "pbft_state_new now me kp replicas (pbft_config_new n)"
  obtain alive s es where run: "replica_run L evs ?s0 = (alive, s, es)" using prod_cases3 by blast
  have wf: "state_wf L ?s0" unfolding assms(3) by (rule state_wf_new [OF assms(2)])
  have "replicas \<noteq> []" using assms(4) by (auto simp: good_pre_prepare_def primary_of_def)
  then have rd: "ready ?s0" by (simp add: ready_def)
  have "only_instance pp ?s0 []"
    by (simp add: only_instance_def)
  with wf rd assms(1,4) have "instance_ready L replicas pp ?s0 []" by (simp add: instance_ready_def)
  note fin = instance_run [OF this assms(5) run]
  then have ready: "instance_ready L replicas pp s es" by simp
  have alive: "alive" using replica_run_alive [OF assms(1) wf rd, of evs] run by simp
  have same: "state_quorum s = unat (quorum (pbft_config_new n))" "st_node_id s = me"
    using trace_same_replica [OF replica_run_trace_all [OF run]]
    by (simp_all add: same_replica_def state_quorum_def)
  have settled: "settled s"
    by (rule replica_run_settles [OF run settled_new wf assms(1)]) (simp add: state_quorum_def quorum_positive)
  obtain inst where inst: "hm_get (st_log s) (pp_sequence pp) = Some inst" "ci_phase inst = Committed"
      "ci_digest inst = Some (pp_digest pp)"
    using instance_committed [OF ready settled, of "{pr_replica_id pr |pr. delivered evs (Prepare pr)}"
        "{cm_replica_id cm |cm. delivered evs (Commit cm)}"] fin assms(6-8) same by auto
  have once: "executed_once L {} s es"
    by (rule once_inv.trace_from_start [OF replica_run_trace_all [OF run]]) (simp add: executed_once_def)
  have "pp_digest pp \<in> st_executed s"
    using inst ready by (auto simp: instance_ready_def state_wf_def instance_wf_def phase_wf_def dest: log_wfD)
  then have "executed_requests es \<noteq> []"
    using once by (auto simp: executed_once_def)
  moreover have "\<forall>req \<in> set (executed_requests es). req = pp_request pp"
    using ready by (simp add: instance_ready_def only_instance_def)
  moreover have "distinct (executed_requests es)"
    using once by (auto simp: executed_once_def distinct_map)
  ultimately have "executed_requests es = [pp_request pp]"
    by (cases "executed_requests es" rule: list.exhaust; cases "tl (executed_requests es)") auto
  with run alive inst show ?thesis by auto
qed

section \<open>Properties\<close>

text \<open>
  C8. In every reachable state the phase of an entry with a proposal is decided by the verified
  votes in it: \<open>PrePrepared\<close> below a quorum of prepares, \<open>Prepared\<close> with one but without a quorum of
  commits, \<open>Committed\<close> with both. So no entry waits for votes it already has.
\<close>

theorem votes_decide_phase:
  assumes "crypto_ok L" and "keypair_wf L kp"
    and "replica_run L evs (pbft_state_new now (public_key_hex L kp) kp replicas config) = (alive, s, es)"
    and "hm_get (st_log s) n = Some inst" and "ci_pre_prepare inst = Some pp"
  shows "ci_phase inst =
    (if card (prepare_voters L n inst) < unat (quorum config) then PrePrepared
     else if card (commit_voters L n inst) < unat (quorum config) then Prepared else Committed)"
proof -
  have c: "state_quorum s = unat (quorum config)"
    using trace_same_replica [OF replica_run_trace_all [OF assms(3)]]
    by (simp add: same_replica_def state_quorum_def)
  note wf = state_wf_new [OF assms(2)]
  show ?thesis
    unfolding c [symmetric]
    by (rule decided_phase [OF replica_run_state_wf [OF assms(3,1) wf]
          replica_run_settles [OF assms(3) settled_new wf assms(1)] assms(4,5)])
      (simp add: state_quorum_def quorum_positive)
qed

theorem votes_decide_phase_witness:
  "\<exists>s es inst. replica_run toy_lib [Receive 5 (Request sample_request)] solo = (True, s, es) \<and>
     hm_get (st_log s) 1 = Some inst \<and> \<not> card (commit_voters toy_lib 1 inst) < 1"
proof -
  obtain s es inst where r: "replica_run toy_lib [Receive 5 (Request sample_request)] solo = (True, s, es)"
    and i: "hm_get (st_log s) 1 = Some inst" "ci_phase inst = Committed"
    using solo_commits by blast
  have "state_wf toy_lib s"
    using replica_run_state_wf [OF r] unfolding solo_eq by (simp add: state_wf_new del: public_key_hex_toy)
  then obtain pp where pp: "ci_pre_prepare inst = Some pp"
    using i instance_certificates(3) by (fastforce simp: state_wf_def dest: log_wfD)
  have "ci_phase inst =
    (if card (prepare_voters toy_lib 1 inst) < unat (quorum (pbft_config_new 1)) then PrePrepared
     else if card (commit_voters toy_lib 1 inst) < unat (quorum (pbft_config_new 1)) then Prepared else Committed)"
    by (rule votes_decide_phase [OF toy_lib_ok toy_keypair_wf r [unfolded solo_eq] i(1) pp])
  with i r show ?thesis by (auto split: if_splits)
qed

text \<open>
  C6. A replica to which the pre-prepare of the primary and matching prepares and commits are
  delivered, in any order and any number of times, delivers the request exactly once and commits
  the entry, as soon as the identifiers of the prepares, its own included, form a quorum and those
  of the commits do.
\<close>

theorem instance_delivers:
  assumes "crypto_ok L" and "keypair_wf L kp" and "me = public_key_hex L kp"
    and "good_pre_prepare L replicas pp"
    and "\<And>ev. ev \<in> set evs \<Longrightarrow> \<exists>t msg. ev = Receive t msg \<and> msg \<in> instance_messages L pp"
    and "delivered evs (PrePrepare pp)"
    and "unat (quorum (pbft_config_new n)) \<le> card (insert me {pr_replica_id pr |pr. delivered evs (Prepare pr)})"
    and "unat (quorum (pbft_config_new n)) \<le> card (insert me {cm_replica_id cm |cm. delivered evs (Commit cm)})"
  shows "\<exists>s es inst. replica_run L evs (pbft_state_new now me kp replicas (pbft_config_new n)) = (True, s, es) \<and>
    executed_requests es = [pp_request pp] \<and>
    hm_get (st_log s) (pp_sequence pp) = Some inst \<and> ci_phase inst = Committed \<and>
    ci_digest inst = Some (pp_digest pp)"
  by (rule instance_run_delivers [OF assms])

theorem instance_delivers_witness:
  "\<exists>s es. replica_run toy_lib
     [Receive 1 (Commit (signed_commit toy_lib (toy_keypair 0) 0 1 sample_digest)),
      Receive 2 (Prepare (signed_prepare toy_lib (toy_keypair 3) 0 1 sample_digest)),
      Receive 3 (PrePrepare (signed_pre_prepare toy_lib (toy_keypair 0) 0 1 sample_request)),
      Receive 4 (Commit (signed_commit toy_lib (toy_keypair 3) 0 1 sample_digest)),
      Receive 5 (Prepare (signed_prepare toy_lib (toy_keypair 0) 0 1 sample_digest))] (member 1)
     = (True, s, es) \<and> executed_requests es = [sample_request]"
proof -
  let ?pp = "signed_pre_prepare toy_lib (toy_keypair 0) 0 1 sample_request"
  let ?pr = "\<lambda>b. signed_prepare toy_lib (toy_keypair b) 0 1 sample_digest"
  let ?cm = "\<lambda>b. signed_commit toy_lib (toy_keypair b) 0 1 sample_digest"
  let ?evs = "[Receive 1 (Commit (?cm 0)), Receive 2 (Prepare (?pr 3)), Receive 3 (PrePrepare ?pp),
    Receive 4 (Commit (?cm 3)), Receive 5 (Prepare (?pr 0))]"
  have good: "good_pre_prepare toy_lib (map toy_id [0, 1, 2, 3]) ?pp"
    "good_prepare toy_lib ?pp (?pr b)" "good_commit toy_lib ?pp (?cm b)" for b
    by (simp_all add: good_pre_prepare_def good_prepare_def good_commit_def primary_of_def sample_digest_def)
  have ids: "{pr_replica_id pr |pr. delivered ?evs (Prepare pr)} = {toy_id 0, toy_id 3}"
    "{cm_replica_id cm |cm. delivered ?evs (Commit cm)} = {toy_id 0, toy_id 3}"
    by (auto simp: delivered_def intro: signed_sel [symmetric] exI [of _ "?pr 0"] exI [of _ "?pr 3"]
        exI [of _ "?cm 0"] exI [of _ "?cm 3"])
  have enough: "unat (quorum (pbft_config_new 4)) \<le> card (insert (toy_id 1) {pr_replica_id pr |pr. delivered ?evs (Prepare pr)})"
    "unat (quorum (pbft_config_new 4)) \<le> card (insert (toy_id 1) {cm_replica_id cm |cm. delivered ?evs (Commit cm)})"
    unfolding ids by simp_all
  have "\<exists>s es inst. replica_run toy_lib ?evs
      (pbft_state_new 0 (toy_id 1) (toy_keypair 1) (map toy_id [0, 1, 2, 3]) (pbft_config_new 4)) = (True, s, es) \<and>
    executed_requests es = [pp_request ?pp] \<and>
    hm_get (st_log s) (pp_sequence ?pp) = Some inst \<and> ci_phase inst = Committed \<and>
    ci_digest inst = Some (pp_digest ?pp)"
    by (rule instance_delivers [OF toy_lib_ok toy_keypair_wf _ good(1) _ _ enough])
      (use good(2,3) in \<open>auto simp: delivered_def\<close>)
  then show ?thesis unfolding member_def by auto
qed

lemma advance_sends_no_prepare:
  "try_advance_to_committed L n s = (r, s', es) \<Longrightarrow> Out (Broadcast (Consensus (Prepare pr))) \<notin> set es"
  "try_advance_to_prepared L n s = (r, s', es) \<Longrightarrow> Out (Broadcast (Consensus (Prepare pr))) \<notin> set es"
proof -
  have cp: "try_checkpoint L n s = (r, s', es) \<Longrightarrow> Out (Broadcast (Consensus (Prepare pr))) \<notin> set es" for n s r s' es
    by (auto elim!: try_checkpoint_cases)
  show co: "try_advance_to_committed L n s = (r, s', es) \<Longrightarrow> Out (Broadcast (Consensus (Prepare pr))) \<notin> set es"
    for n s r s' es
    using cp by (fastforce simp: try_advance_to_committed_def emit_eq_iff
        split: prod.splits section_result.splits option.splits)
  show "try_advance_to_prepared L n s = (r, s', es) \<Longrightarrow> Out (Broadcast (Consensus (Prepare pr))) \<notin> set es"
    using co by (fastforce simp: try_advance_to_prepared_def emit_eq_iff
        split: prod.splits section_result.splits)
qed

text \<open>
  A replica answers a pre-prepare with a prepare exactly when it is for its view, from the
  primary of that view, within the water marks, correctly signed, the first for its sequence
  number, and its digest is the hash of its request; the prepare repeats view, number and digest
  under the own identifier.
\<close>

lemma pre_prepare_answered_iff:
  "Out (Broadcast (Consensus (Prepare pr))) \<in> set (snd (snd (handle_pre_prepare L now pp s))) \<longleftrightarrow>
     pp_view pp = st_view s \<and> primary s = Some (pp_primary_id pp) \<and>
     in_window (pp_sequence pp) s \<and>
     verify_node_signature L (pp_primary_id pp)
       (as_bytes (prepare_sign_data (pp_view pp) (pp_sequence pp) (pp_digest pp))) (pp_signature pp) \<and>
     \<not> proposed (pp_sequence pp) s \<and> request_digest L (pp_request pp) = pp_digest pp \<and>
     pr = own_prepare L (pp_sequence pp) (pp_digest pp) s"
proof -
  obtain x t where x: "handle_pre_prepare_section L now pp s = (x, t)" by fastforce
  then show ?thesis
  proof (cases rule: handle_pre_prepare_section_cases)
    case (known r inst)
    with x show ?thesis by (auto simp: handle_pre_prepare_def proposed_def)
  next
    case (accept n pr')
    obtain r s' es where a: "try_advance_to_prepared L (pr_sequence pr') t = (r, s', es)"
      using prod_cases3 by blast
    have "\<not> proposed n s" using accept(8) pre_prepare_at_proposed [of now n s] by simp
    with x accept a advance_sends_no_prepare(2) [OF a] show ?thesis
      by (auto simp: handle_pre_prepare_def)
  qed (use x in \<open>auto simp: handle_pre_prepare_def primary_def primary_of_def\<close>)
qed

end
