(* ===== verification/Weak_Checks.thy ===== *)
theory Weak_Checks
  imports Delivery
begin

text \<open>
  What the handlers do not check, for every library, group and state: votes of identifiers that are
  not replicas count, a new primary uses a number and its votes again, requests are executed in the
  order in which their entries commit, and two requests can share a digest.
\<close>

section \<open>Completing an entry\<close>

text \<open>The commit is the last one that a prepared entry, with this request, waits for.\<close>

definition completes ::
  "('sk, 'vk) crypto_lib \<Rightarrow> ('sk, 'vk) pbft_state \<Rightarrow> commit \<times> request \<Rightarrow> bool" where
  "completes L s x \<longleftrightarrow>
     (case x of (cm, req) \<Rightarrow>
        cm_view cm = st_view s \<and> in_window (cm_sequence cm) s \<and>
        verify_node_signature L (cm_replica_id cm)
          (as_bytes (commit_sign_data (cm_view cm) (cm_sequence cm) (cm_digest cm))) (cm_signature cm) \<and>
        request_digest L req \<notin> st_executed s \<and>
        (case hm_get (st_log s) (cm_sequence cm) of
           None \<Rightarrow> False
         | Some inst \<Rightarrow> ci_phase inst = Prepared \<and> ci_digest inst = Some (cm_digest cm) \<and>
             ci_request inst = Some req \<and> hm_get (ci_commits inst) (cm_replica_id cm) = None \<and>
             state_quorum s \<le> Suc (hm_len (ci_commits inst))))"

definition completed :: "('sk, 'vk) crypto_lib \<Rightarrow> commit \<Rightarrow> request \<Rightarrow> ('sk, 'vk) pbft_state \<Rightarrow> ('sk, 'vk) pbft_state" where
  "completed L cm req s =
     (case hm_get (st_log s) (cm_sequence cm) of
        None \<Rightarrow> s
      | Some inst \<Rightarrow>
          (put_instance (cm_sequence cm)
             (inst\<lparr>ci_commits := hm_insert (cm_replica_id cm) cm (ci_commits inst), ci_phase := Committed\<rparr>) s)
            \<lparr>st_executed := insert (request_digest L req) (st_executed s)\<rparr>)"

lemma completed_frame [simp]:
  "st_view (completed L cm req s) = st_view s" "st_config (completed L cm req s) = st_config s"
  "st_replicas (completed L cm req s) = st_replicas s"
  "st_low_watermark (completed L cm req s) = st_low_watermark s"
  "st_high_watermark (completed L cm req s) = st_high_watermark s"
  by (simp_all add: completed_def split: option.split)

lemma ready_completed: "ready s \<Longrightarrow> ready (completed L cm req s)"
  by (simp add: ready_def)

lemma completing_commit_executes:
  assumes "completes L s (cm, req)" and "ready s"
  shows "\<exists>es. replica_step L (Receive t (Commit cm)) s = (Ok (), completed L cm req s, es) \<and>
    executed_requests es = [req]"
proof -
  let ?n = "cm_sequence cm"
  obtain inst where i: "hm_get (st_log s) ?n = Some inst" "ci_phase inst = Prepared"
      "ci_digest inst = Some (cm_digest cm)" "ci_request inst = Some req"
      "hm_get (ci_commits inst) (cm_replica_id cm) = None"
      "state_quorum s \<le> Suc (hm_len (ci_commits inst))"
    and c: "cm_view cm = st_view s" "in_window ?n s" "request_digest L req \<notin> st_executed s"
      "verify_node_signature L (cm_replica_id cm)
         (as_bytes (commit_sign_data (cm_view cm) ?n (cm_digest cm))) (cm_signature cm)"
    using assms(1) by (auto simp: completes_def split: option.splits)
  let ?inst = "inst\<lparr>ci_commits := hm_insert (cm_replica_id cm) cm (ci_commits inst)\<rparr>"
  have sec: "handle_commit_section L t cm s = (Continue ?n, put_instance ?n ?inst s)"
    using i c by (simp add: handle_commit_section_def Let_def get_or_create_present hm_contains_key_def
        in_window_def not_le not_less)
  have adv: "try_committed_section L ?n (put_instance ?n ?inst s) = (Continue (Some req), completed L cm req s)"
    using i c by (simp add: try_committed_section_def completed_def Let_def not_less state_quorum_def)
  obtain r u es where cp: "try_checkpoint L ?n (completed L cm req s) = (r, u, es)" using prod_cases3 by blast
  then have "r = Ok ()" "u = completed L cm req s" "executed_requests es = []"
    using try_checkpoint_Ok [OF ready_completed [OF assms(2)], of L ?n L cm req]
    by (auto elim: try_checkpoint_cases)
  with sec adv cp show ?thesis
    by (simp add: replica_step_def process_message_def handle_commit_def try_advance_to_committed_def)
qed

lemma completes_after:
  assumes "completes L s (cm, req)" and "cm_sequence a \<noteq> cm_sequence cm"
    and "request_digest L b \<noteq> request_digest L req"
  shows "completes L (completed L a b s) (cm, req)"
  using assms by (auto simp: completes_def completed_def state_quorum_def in_window_def split: option.splits)

lemma completing_run:
  assumes "ready s" and "\<forall>x\<in>set xs. completes L s x" and "distinct (map (\<lambda>x. cm_sequence (fst x)) xs)"
    and "distinct (map (\<lambda>x. request_digest L (snd x)) xs)"
  shows "\<exists>s' es. replica_run L (map (\<lambda>x. Receive t (Commit (fst x))) xs) s = (True, s', es) \<and>
    executed_requests es = map snd xs"
  using assms
proof (induction xs arbitrary: s)
  case (Cons x xs)
  obtain cm req where x: "x = (cm, req)" by fastforce
  obtain es where st: "replica_step L (Receive t (Commit cm)) s = (Ok (), completed L cm req s, es)"
    and e: "executed_requests es = [req]"
    using completing_commit_executes Cons.prems(1,2) x by force
  have "\<forall>y\<in>set xs. completes L (completed L cm req s) y"
  proof
    fix y
    assume y: "y \<in> set xs"
    obtain a b where ab: "y = (a, b)" by fastforce
    from y have "cm_sequence (fst x) \<noteq> cm_sequence (fst y)" "request_digest L (snd x) \<noteq> request_digest L (snd y)"
      using Cons.prems(3,4) by auto
    with y Cons.prems(2) show "completes L (completed L cm req s) y"
      by (simp add: x ab completes_after)
  qed
  with Cons.IH [OF ready_completed [OF Cons.prems(1)], of L cm req] Cons.prems(3,4)
  obtain s' es' where "replica_run L (map (\<lambda>x. Receive t (Commit (fst x))) xs) (completed L cm req s) = (True, s', es')"
    "executed_requests es' = map snd xs"
    by auto
  with st e show ?case by (simp add: x)
qed simp

section \<open>A number used again\<close>

lemma try_committed_executes:
  assumes "hm_get (st_log s) n = Some inst" and "ci_phase inst = Prepared"
    and "state_quorum s \<le> hm_len (ci_commits inst)" and "ci_request inst = Some req"
    and "request_digest L req \<notin> st_executed s" and "ready s"
  shows "\<exists>es. try_advance_to_committed L n s =
      (Ok (), (put_instance n (inst\<lparr>ci_phase := Committed\<rparr>) s)
         \<lparr>st_executed := insert (request_digest L req) (st_executed s)\<rparr>, es) \<and>
    executed_requests es = [req]"
proof -
  let ?t = "(put_instance n (inst\<lparr>ci_phase := Committed\<rparr>) s)
    \<lparr>st_executed := insert (request_digest L req) (st_executed s)\<rparr>"
  have sec: "try_committed_section L n s = (Continue (Some req), ?t)"
    using assms(1-5) by (simp add: try_committed_section_def Let_def not_less state_quorum_def)
  obtain r u es where cp: "try_checkpoint L n ?t = (r, u, es)" using prod_cases3 by blast
  have "ready ?t" using assms(6) by (simp add: ready_def)
  from try_checkpoint_Ok [OF this, of L n] cp have "r = Ok ()" "u = ?t" "executed_requests es = []"
    by (auto elim: try_checkpoint_cases)
  with sec cp show ?thesis by (simp add: try_advance_to_committed_def)
qed

text \<open>The votes that an entry of the new primary holds when it writes its proposal suffice at once.\<close>

lemma request_executes_at_once:
  assumes "primary s = Some (st_node_id s)" and "request_digest L req \<notin> st_executed s"
    and "n = st_sequence s + 1" and "n \<le> st_high_watermark s" and "hm_get (st_log s) n = Some inst"
    and "state_quorum s \<le> hm_len (ci_prepares inst)" and "state_quorum s \<le> hm_len (ci_commits inst)"
    and "ready s"
  shows "\<exists>s' es pp inst'. replica_step L (Receive t (Request req)) s = (Ok (), s', es) \<and>
    executed_requests es = [req] \<and>
    Out (Broadcast (Consensus (PrePrepare pp))) \<in> set es \<and> pp_view pp = st_view s \<and> pp_sequence pp = n \<and>
    pp_request pp = req \<and>
    hm_get (st_log s') n = Some inst' \<and> ci_phase inst' = Committed \<and> ci_request inst' = Some req \<and>
    hm_keys (ci_prepares inst') = insert (st_node_id s) (hm_keys (ci_prepares inst)) \<and>
    hm_keys (ci_commits inst') = insert (st_node_id s) (hm_keys (ci_commits inst))"
proof -
  obtain x s1 where x: "handle_request_section L t req s = (x, s1)" by fastforce
  then show ?thesis
  proof (cases rule: handle_request_section_cases)
    case (propose m pp pr)
    let ?i1 = "with_proposal pp pr inst"
    have m: "m = n" and s1: "s1 = put_instance n ?i1 (s\<lparr>st_sequence := n\<rparr>)"
      using propose(2,5) assms(3,5) by (simp_all add: instance_at_present)
    have wp: "ci_pre_prepare ?i1 = Some pp" "ci_phase ?i1 = PrePrepared" "ci_digest ?i1 = Some (pp_digest pp)"
      "ci_request ?i1 = Some req" "ci_commits ?i1 = ci_commits inst"
      "ci_prepares ?i1 = hm_insert (st_node_id s) pr (ci_prepares inst)"
      using propose(3,4) by (simp_all add: with_proposal_def)
    have "state_quorum s \<le> hm_len (ci_prepares ?i1)"
      using assms(6) by (simp add: wp(6))
    then have q: "\<not> hm_len (ci_prepares ?i1) < unat (quorum (st_config s1))"
      by (simp add: s1 state_quorum_def)
    have l1: "hm_get (st_log s1) n = Some ?i1" by (simp add: s1)
    define cm where "cm = own_commit L (ci_view ?i1) n (pp_digest pp) s1"
    define i2 where "i2 = ?i1\<lparr>ci_phase := Prepared, ci_commits := hm_insert (st_node_id s) cm (ci_commits inst)\<rparr>"
    have me: "st_node_id s1 = st_node_id s" by (simp add: s1)
    have sec: "try_prepared_section L n s1 = (Continue cm, put_instance n i2 s1)"
      using q by (simp add: try_prepared_section_def l1 wp(1-3,5) Let_def cm_def i2_def own_commit_def me)
    let ?s2 = "put_instance n i2 s1"
    have "\<exists>es. try_advance_to_committed L n ?s2 =
        (Ok (), (put_instance n (i2\<lparr>ci_phase := Committed\<rparr>) ?s2)
           \<lparr>st_executed := insert (request_digest L req) (st_executed ?s2)\<rparr>, es) \<and>
      executed_requests es = [req]"
      using assms(2,7,8) wp
      by (intro try_committed_executes) (auto simp: i2_def s1 state_quorum_def ready_def)
    then obtain es where es: "try_advance_to_committed L n ?s2 =
        (Ok (), (put_instance n (i2\<lparr>ci_phase := Committed\<rparr>) ?s2)
           \<lparr>st_executed := insert (request_digest L req) (st_executed ?s2)\<rparr>, es)"
      "executed_requests es = [req]"
      by blast
    have "pp_sequence pp = n" using propose(3) m by simp
    with x propose(1) sec es(1) have step: "replica_step L (Receive t (Request req)) s =
        (Ok (), (put_instance n (i2\<lparr>ci_phase := Committed\<rparr>) ?s2)
           \<lparr>st_executed := insert (request_digest L req) (st_executed ?s2)\<rparr>,
         [Out (Broadcast (Consensus (PrePrepare pp))), Out (Broadcast (Consensus (Prepare pr))),
          Out (Broadcast (Consensus (Commit cm)))] @ es)"
      by (simp add: replica_step_def process_message_def handle_request_def try_advance_to_prepared_def)
    have fields: "pp_request pp = req" "pp_view pp = st_view s" "pp_sequence pp = n"
      "pr_replica_id pr = st_node_id s"
      by (simp_all add: propose(3,4) m)
    have i2: "ci_request i2 = Some req"
      "hm_keys (ci_prepares i2) = insert (st_node_id s) (hm_keys (ci_prepares inst))"
      "hm_keys (ci_commits i2) = insert (st_node_id s) (hm_keys (ci_commits inst))"
      by (simp_all add: i2_def wp fields)
    show ?thesis
      by (rule exI, rule exI, rule exI [of _ pp], rule exI [of _ "i2\<lparr>ci_phase := Committed\<rparr>"], rule conjI, rule step)
        (use es(2) i2 fields in simp_all)
  qed (use assms in \<open>auto simp: ready_def\<close>)
qed

lemma enters_view:
  "st_view s < nv_new_view nv \<Longrightarrow> \<exists>s1. replica_step L (Receive t (NewView nv)) s = (Ok (), s1, []) \<and>
     st_view s1 = nv_new_view nv \<and> st_log s1 = st_log s \<and> st_executed s1 = st_executed s \<and>
     st_sequence s1 = st_sequence s \<and> st_high_watermark s1 = st_high_watermark s \<and> same_replica s s1"
  by (auto simp: replica_step_def process_message_def handle_new_view_def Let_def same_replica_def not_le)

section \<open>Requests with one digest\<close>

text \<open>
  The request that hashes the same bytes as one whose client identifier ends in \<open>u\<close>: \<open>u\<close> moves into
  the timestamp, and the last bytes of the timestamp into the operation.
\<close>

definition twin_request :: "string \<Rightarrow> string \<Rightarrow> u64 \<Rightarrow> byte list \<Rightarrow> request" where
  "twin_request c u t operation =
     \<lparr>rq_client_id = c,
      rq_timestamp = word_of_nat (le_value (as_bytes u @ take (8 - length u) (u64_to_le_bytes t))),
      rq_operation = drop (8 - length u) (u64_to_le_bytes t) @ operation\<rparr>"

lemma u64_bytes_of_value: "length bs = 8 \<Longrightarrow> u64_to_le_bytes (word_of_nat (le_value bs)) = bs"
proof -
  assume len: "length bs = 8"
  then have "le_value bs < 2 ^ 64" using le_value_bound [of bs] by simp
  then have "unat (word_of_nat (le_value bs) :: u64) = le_value bs" by (simp add: unat_of_nat)
  then show ?thesis using le_bytes_le_value [of bs] len by (simp add: u64_to_le_bytes_def)
qed

lemma twin_preimage:
  assumes "length u \<le> 8"
  shows "request_preimage (twin_request c u t operation) =
    request_preimage \<lparr>rq_client_id = c @ u, rq_timestamp = t, rq_operation = operation\<rparr>"
proof -
  have "length (as_bytes u @ take (8 - length u) (u64_to_le_bytes t)) = 8"
    using assms by simp
  then show ?thesis by (simp add: request_preimage_def twin_request_def u64_bytes_of_value)
qed

section \<open>Properties\<close>

text \<open>
  C21. Votes count whoever sends them: whatever the replica list, the pre-prepare of the primary and
  the signed prepares and commits of any key pairs, none of which belongs to a replica, make a backup
  commit and execute the request, when with its own identifier they are as many as a quorum.
\<close>

theorem outsider_votes_count:
  assumes "crypto_ok L" and "keypair_wf L kp" and "me = public_key_hex L kp"
    and "good_pre_prepare L replicas pp"
    and "\<And>k. k \<in> set ks \<Longrightarrow> keypair_wf L k \<and> public_key_hex L k \<notin> set replicas"
    and "unat (quorum (pbft_config_new n)) \<le> card (insert me (public_key_hex L ` set ks))"
  shows "\<exists>s es inst. replica_run L
      (Receive t (PrePrepare pp) #
       map (\<lambda>k. Receive t (Prepare (signed_prepare L k 0 (pp_sequence pp) (pp_digest pp)))) ks @
       map (\<lambda>k. Receive t (Commit (signed_commit L k 0 (pp_sequence pp) (pp_digest pp)))) ks)
      (pbft_state_new now me kp replicas (pbft_config_new n)) = (True, s, es) \<and>
    executed_requests es = [pp_request pp] \<and>
    hm_get (st_log s) (pp_sequence pp) = Some inst \<and> ci_phase inst = Committed \<and>
    ci_digest inst = Some (pp_digest pp)"
proof (rule instance_run_delivers [OF assms(1-4)])
  let ?pr = "\<lambda>k. signed_prepare L k 0 (pp_sequence pp) (pp_digest pp)"
  let ?cm = "\<lambda>k. signed_commit L k 0 (pp_sequence pp) (pp_digest pp)"
  let ?evs = "Receive t (PrePrepare pp) # map (\<lambda>k. Receive t (Prepare (?pr k))) ks @
    map (\<lambda>k. Receive t (Commit (?cm k))) ks"
  show "\<exists>t msg. ev = Receive t msg \<and> msg \<in> instance_messages L pp" if "ev \<in> set ?evs" for ev
    using that assms(1,5) by (auto simp: good_prepare_def good_commit_def)
  show "delivered ?evs (PrePrepare pp)" by (simp add: delivered_def)
  have d: "delivered ?evs (Prepare (?pr k))" "delivered ?evs (Commit (?cm k))" if "k \<in> set ks" for k
    using that by (auto simp: delivered_def)
  have "public_key_hex L ` set ks = {pr_replica_id pr |pr. delivered ?evs (Prepare pr)}"
    "public_key_hex L ` set ks = {cm_replica_id cm |cm. delivered ?evs (Commit cm)}"
    using d by (auto simp: delivered_def) (metis signed_sel)+
  with assms(6) show "unat (quorum (pbft_config_new n)) \<le>
      card (insert me {pr_replica_id pr |pr. delivered ?evs (Prepare pr)})"
    "unat (quorum (pbft_config_new n)) \<le> card (insert me {cm_replica_id cm |cm. delivered ?evs (Commit cm)})"
    by simp_all
qed

text \<open>
  C22. A new primary counts sequence numbers from its own counter, which no backup advances, and the
  entry it writes keeps the votes collected before. Whenever the number after its own counter has
  committed at a replica, a new-view message that makes it the primary (none of its other fields
  matters) and a request that was not executed make it propose that number again, for the new request,
  and execute it at once: with no vote for it, only those that the old request had collected.
\<close>

theorem new_primary_reuses_number_and_votes:
  assumes "crypto_ok L" and "keypair_wf L kp" and "me = public_key_hex L kp"
    and "replica_run L evs (pbft_state_new now me kp replicas (pbft_config_new m)) = (True, s, h)"
    and "n = st_sequence s + 1" and "n \<le> st_high_watermark s"
    and "hm_get (st_log s) n = Some inst" and "ci_phase inst = Committed"
    and "st_view s < nv_new_view nv" and "primary_of replicas (nv_new_view nv) = Some me"
    and "request_digest L req \<notin> st_executed s"
  shows "\<exists>s' es pp inst'. replica_run L [Receive t (NewView nv), Receive t' (Request req)] s = (True, s', es) \<and>
    executed_requests es = [req] \<and> ci_request inst \<noteq> Some req \<and>
    Out (Broadcast (Consensus (PrePrepare pp))) \<in> set es \<and> pp_view pp = nv_new_view nv \<and>
    pp_sequence pp = n \<and> pp_request pp = req \<and>
    hm_get (st_log s') n = Some inst' \<and> ci_phase inst' = Committed \<and> ci_request inst' = Some req \<and>
    hm_keys (ci_prepares inst') = insert me (hm_keys (ci_prepares inst)) \<and>
    hm_keys (ci_commits inst') = insert me (hm_keys (ci_commits inst))"
proof -
  have "state_wf L s"
    using replica_run_state_wf [OF assms(4,1)] state_wf_new [OF assms(2)] by (simp add: assms(3))
  then have wf: "instance_wf L (state_quorum s) (st_executed s) n inst"
    using assms(7) by (simp add: state_wf_def log_wfD)
  have same: "st_node_id s = me" "st_replicas s = replicas" "st_config s = pbft_config_new m"
    using trace_same_replica [OF replica_run_trace_all [OF assms(4)]] by (simp_all add: same_replica_def)
  have old: "ci_request inst \<noteq> Some req"
    using wf assms(8,11) by (auto simp: instance_wf_def proposal_wf_def phase_wf_def split: option.splits)
  obtain s1 where s1: "replica_step L (Receive t (NewView nv)) s = (Ok (), s1, [])"
    "st_view s1 = nv_new_view nv" "st_log s1 = st_log s" "st_executed s1 = st_executed s"
    "st_sequence s1 = st_sequence s" "st_high_watermark s1 = st_high_watermark s" "same_replica s s1"
    using enters_view [OF assms(9)] by blast
  have me: "st_node_id s1 = me" "primary s1 = Some me" "state_quorum s1 = state_quorum s" "ready s1"
    using s1(2,7) same assms(10)
    by (auto simp: same_replica_def primary_def state_quorum_def ready_def primary_of_def pbft_config_new_def
        split: if_splits)
  have "\<exists>s' es pp inst'. replica_step L (Receive t' (Request req)) s1 = (Ok (), s', es) \<and>
    executed_requests es = [req] \<and>
    Out (Broadcast (Consensus (PrePrepare pp))) \<in> set es \<and> pp_view pp = st_view s1 \<and> pp_sequence pp = n \<and>
    pp_request pp = req \<and>
    hm_get (st_log s') n = Some inst' \<and> ci_phase inst' = Committed \<and> ci_request inst' = Some req \<and>
    hm_keys (ci_prepares inst') = insert (st_node_id s1) (hm_keys (ci_prepares inst)) \<and>
    hm_keys (ci_commits inst') = insert (st_node_id s1) (hm_keys (ci_commits inst))"
    using wf assms(5-8,11) s1 me
    by (intro request_executes_at_once) (simp_all add: instance_wf_def phase_wf_def)
  then obtain s' es pp inst' where "replica_step L (Receive t' (Request req)) s1 = (Ok (), s', es)"
    "executed_requests es = [req]" "Out (Broadcast (Consensus (PrePrepare pp))) \<in> set es"
    "pp_view pp = nv_new_view nv" "pp_sequence pp = n" "pp_request pp = req"
    "hm_get (st_log s') n = Some inst'" "ci_phase inst' = Committed" "ci_request inst' = Some req"
    "hm_keys (ci_prepares inst') = insert me (hm_keys (ci_prepares inst))"
    "hm_keys (ci_commits inst') = insert me (hm_keys (ci_commits inst))"
    unfolding me(1) s1(2) by blast
  with s1(1) old show ?thesis by auto
qed

text \<open>
  C23. Requests are executed in the order in which their entries commit, whatever their sequence
  numbers: when several prepared entries each wait for one more commit, the missing commits execute
  the requests in the order in which they arrive, every order being possible.
\<close>

theorem execution_order_is_commit_order:
  assumes "ready s" and "\<forall>x\<in>set xs. completes L s x" and "distinct (map (\<lambda>x. cm_sequence (fst x)) xs)"
    and "distinct (map (\<lambda>x. request_digest L (snd x)) xs)"
  shows "\<exists>s' es. replica_run L (map (\<lambda>x. Receive t (Commit (fst x))) xs) s = (True, s', es) \<and>
    executed_requests es = map snd xs"
  by (rule completing_run [OF assms])

text \<open>
  C27. The fields of a request are hashed without their lengths: under every hash function a request
  whose client identifier ends in up to eight bytes \<open>u\<close> has the digest of a request of the client
  without \<open>u\<close>. A primary that has executed the one drops the other, without an error and without a message.
\<close>

theorem request_digest_field_boundary_collision:
  assumes "u \<noteq> []" and "length u \<le> 8"
    and "req = \<lparr>rq_client_id = c @ u, rq_timestamp = t, rq_operation = operation\<rparr>"
    and "primary s = Some (st_node_id s)"
    and "request_digest L (twin_request c u t operation) \<in> st_executed s"
  shows "rq_client_id (twin_request c u t operation) \<noteq> rq_client_id req \<and>
    request_digest L (twin_request c u t operation) = request_digest L req \<and>
    handle_request L now req s = (Ok (), s, [])"
proof -
  have d: "request_digest L (twin_request c u t operation) = request_digest L req"
    unfolding request_digest_def assms(3) twin_preimage [OF assms(2)] ..
  with assms(4,5) have "handle_request L now req s = (Ok (), s, [])"
    by (simp add: handle_request_def handle_request_section_def Let_def)
  with d assms(1,3) show ?thesis by (simp add: twin_request_def)
qed

section \<open>Witnesses\<close>

abbreviation "sample_proposal \<equiv> signed_pre_prepare toy_lib (toy_keypair 0) 0 1 sample_request"
abbreviation "other_proposal \<equiv> signed_pre_prepare toy_lib (toy_keypair 0) 0 2 other_request"

lemma good_sample: "good_pre_prepare toy_lib (map toy_id [0, 1, 2, 3]) sample_proposal"
  by (simp add: good_pre_prepare_def primary_of_def)

theorem outsider_votes_count_witness:
  "\<exists>s es inst. replica_run toy_lib
      [Receive 1 (PrePrepare sample_proposal),
       Receive 1 (Prepare (signed_prepare toy_lib (toy_keypair 7) 0 1 sample_digest)),
       Receive 1 (Prepare (signed_prepare toy_lib (toy_keypair 8) 0 1 sample_digest)),
       Receive 1 (Commit (signed_commit toy_lib (toy_keypair 7) 0 1 sample_digest)),
       Receive 1 (Commit (signed_commit toy_lib (toy_keypair 8) 0 1 sample_digest))] (member 1) = (True, s, es) \<and>
    executed_requests es = [sample_request] \<and> hm_get (st_log s) 1 = Some inst \<and> ci_phase inst = Committed"
proof -
  let ?ks = "[toy_keypair 7, toy_keypair 8]"
  have out: "keypair_wf toy_lib k \<and> public_key_hex toy_lib k \<notin> set (map toy_id [0, 1, 2, 3])" if "k \<in> set ?ks" for k
    using that by auto
  have "unat (quorum (pbft_config_new 4)) \<le> card (insert (toy_id 1) (public_key_hex toy_lib ` set ?ks))"
    by simp
  from outsider_votes_count [OF toy_lib_ok toy_keypair_wf public_key_hex_toy [symmetric] good_sample out this,
      of 1 0]
  show ?thesis by (auto simp: member_def sample_digest_def simp del: replica_run.simps)
qed

text \<open>Replica 1 after it has committed \<open>sample_request\<close> as a backup.\<close>

definition old_backup where
  "old_backup = replica_run toy_lib
     [Receive 1 (PrePrepare sample_proposal),
      Receive 2 (Prepare (signed_prepare toy_lib (toy_keypair 0) 0 1 sample_digest)),
      Receive 2 (Prepare (signed_prepare toy_lib (toy_keypair 2) 0 1 sample_digest)),
      Receive 3 (Commit (signed_commit toy_lib (toy_keypair 0) 0 1 sample_digest)),
      Receive 3 (Commit (signed_commit toy_lib (toy_keypair 2) 0 1 sample_digest))] (member 1)"

lemma old_backup:
  "\<exists>s h inst. old_backup = (True, s, h) \<and> st_sequence s = 0 \<and> st_high_watermark s = 200 \<and> st_view s = 0 \<and>
     hm_get (st_log s) 1 = Some inst \<and> ci_phase inst = Committed \<and> st_executed s = {sample_digest}"
  by (simp add: old_backup_def member_def run_defs sample_digest_def)

theorem new_primary_reuses_number_and_votes_witness:
  "\<exists>s h s' es pp. old_backup = (True, s, h) \<and> replica_run toy_lib
      [Receive 4 (NewView \<lparr>nv_new_view = 1, nv_view_changes = [], nv_primary_id = [], nv_signature = []\<rparr>),
       Receive 5 (Request other_request)] s = (True, s', es) \<and>
    executed_requests es = [other_request] \<and>
    Out (Broadcast (Consensus (PrePrepare pp))) \<in> set es \<and> pp_sequence pp = 1"
proof -
  obtain s h inst where b: "old_backup = (True, s, h)" "st_sequence s = 0" "st_high_watermark s = 200" "st_view s = 0"
    "hm_get (st_log s) 1 = Some inst" "ci_phase inst = Committed" "st_executed s = {sample_digest}"
    using old_backup by blast
  from new_primary_reuses_number_and_votes [OF toy_lib_ok toy_keypair_wf refl
      b(1) [unfolded old_backup_def member_eq] _ _ b(5,6), of
      "\<lparr>nv_new_view = 1, nv_view_changes = [], nv_primary_id = [], nv_signature = []\<rparr>" other_request 4 5]
  show ?thesis
    using b other_digest_neq(1) by (auto simp: primary_of_def other_digest_def [symmetric])
qed

text \<open>Replica 1 with two prepared entries, each one commit short.\<close>

definition two_prepared where
  "two_prepared = replica_run toy_lib
     [Receive 1 (PrePrepare sample_proposal), Receive 1 (PrePrepare other_proposal),
      Receive 2 (Prepare (signed_prepare toy_lib (toy_keypair 0) 0 1 sample_digest)),
      Receive 2 (Prepare (signed_prepare toy_lib (toy_keypair 2) 0 1 sample_digest)),
      Receive 2 (Prepare (signed_prepare toy_lib (toy_keypair 0) 0 2 other_digest)),
      Receive 2 (Prepare (signed_prepare toy_lib (toy_keypair 2) 0 2 other_digest)),
      Receive 3 (Commit (signed_commit toy_lib (toy_keypair 0) 0 1 sample_digest)),
      Receive 3 (Commit (signed_commit toy_lib (toy_keypair 0) 0 2 other_digest))] (member 1)"

lemma two_prepared:
  "fst two_prepared" "ready (fst (snd two_prepared))"
  "completes toy_lib (fst (snd two_prepared)) (signed_commit toy_lib (toy_keypair 2) 0 1 sample_digest, sample_request)"
  "completes toy_lib (fst (snd two_prepared)) (signed_commit toy_lib (toy_keypair 2) 0 2 other_digest, other_request)"
  by (simp_all add: two_prepared_def member_def run_defs sample_digest_def other_digest_def completes_def
      ready_def in_window_def state_quorum_def)

theorem execution_order_is_commit_order_witness:
  "\<exists>s' es. replica_run toy_lib
      [Receive 4 (Commit (signed_commit toy_lib (toy_keypair 2) 0 2 other_digest)),
       Receive 4 (Commit (signed_commit toy_lib (toy_keypair 2) 0 1 sample_digest))]
      (fst (snd two_prepared)) = (True, s', es) \<and>
    executed_requests es = [other_request, sample_request]"
  using execution_order_is_commit_order [OF two_prepared(2), of
      "[(signed_commit toy_lib (toy_keypair 2) 0 2 other_digest, other_request),
        (signed_commit toy_lib (toy_keypair 2) 0 1 sample_digest, sample_request)]" toy_lib 4]
    two_prepared(3,4) other_digest_neq(1)
  by (simp add: other_digest_def [symmetric] sample_digest_def [symmetric])

theorem request_digest_field_boundary_collision_witness:
  "\<exists>s h. replica_run toy_lib [Receive 5 (Request (twin_request ''al'' ''ice'' 7 [1]))] solo = (True, s, h) \<and>
     handle_request toy_lib 6 \<lparr>rq_client_id = ''alice'', rq_timestamp = 7, rq_operation = [1]\<rparr> s = (Ok (), s, [])"
proof -
  obtain s h where r: "replica_run toy_lib [Receive 5 (Request (twin_request ''al'' ''ice'' 7 [1]))] solo = (True, s, h)"
    "primary s = Some (st_node_id s)"
    "request_digest toy_lib (twin_request ''al'' ''ice'' 7 [1]) \<in> st_executed s"
    by (simp add: solo_def run_defs)
  from request_digest_field_boundary_collision [OF _ _ refl r(2,3), where now = 6] r(1) show ?thesis
    by auto
qed

end
