(* ===== verification/Ledger.thy ===== *)
theory Ledger
  imports Agreement
begin

text \<open>
  What the group promises, as an abstract machine: one log that is written once per sequence number,
  and replicas that execute what the log holds, each digest once. Under orderly delivery the system
  of replicas refines it: a digest is in the abstract log as soon as a correct replica has signed a
  commit for it.
\<close>

section \<open>The abstract log\<close>

record group_log =
  gl_decided :: "sequence_number \<Rightarrow> hash option"
  gl_executed :: "node_id \<Rightarrow> hash set"

inductive log_step :: "node_id set \<Rightarrow> group_log \<Rightarrow> group_log \<Rightarrow> bool" for H where
  decide:
    "gl_decided g n = None \<Longrightarrow> log_step H g (g\<lparr>gl_decided := (gl_decided g)(n \<mapsto> d)\<rparr>)"
| carry_out:
    "i \<in> H \<Longrightarrow> gl_decided g n = Some d \<Longrightarrow> d \<notin> gl_executed g i \<Longrightarrow>
     log_step H g (g\<lparr>gl_executed := (gl_executed g)(i := insert d (gl_executed g i))\<rparr>)"

inductive_cases log_stepE: "log_step H g g'"

abbreviation log_steps :: "node_id set \<Rightarrow> group_log \<Rightarrow> group_log \<Rightarrow> bool" where
  "log_steps H \<equiv> rtranclp (log_step H)"

definition empty_log :: group_log where
  "empty_log = \<lparr>gl_decided = (\<lambda>_. None), gl_executed = (\<lambda>_. {})\<rparr>"

text \<open>The machine writes once, forgets nothing, and executes only what is in the log.\<close>

lemma log_steps_write_once:
  assumes "log_steps H g g'"
  shows "gl_decided g \<subseteq>\<^sub>m gl_decided g'" and "gl_executed g i \<subseteq> gl_executed g' i"
proof -
  have "gl_decided g \<subseteq>\<^sub>m gl_decided g' \<and> gl_executed g i \<subseteq> gl_executed g' i"
    using assms
  proof (induction rule: rtranclp_induct)
    case (step g' g'')
    from step.hyps(2) have "gl_decided g' \<subseteq>\<^sub>m gl_decided g'' \<and> gl_executed g' i \<subseteq> gl_executed g'' i"
      by (rule log_stepE) (auto simp: map_le_def)
    with step.IH show ?case by (blast intro: map_le_trans)
  qed (simp add: map_le_refl)
  then show "gl_decided g \<subseteq>\<^sub>m gl_decided g'" "gl_executed g i \<subseteq> gl_executed g' i" by blast+
qed

lemma log_steps_executed:
  assumes "log_steps H empty_log g"
  shows "gl_executed g i \<subseteq> ran (gl_decided g)"
  using assms
proof (induction rule: rtranclp_induct)
  case base
  then show ?case by (simp add: empty_log_def)
next
  case (step g g')
  from step.hyps(2) show ?case
  proof (rule log_stepE)
    fix n d
    assume "gl_decided g n = None" "g' = g\<lparr>gl_decided := (gl_decided g)(n \<mapsto> d)\<rparr>"
    with step.IH show ?thesis by (simp add: ran_map_upd subset_insertI2 del: fun_upd_apply)
  qed (use step.IH in \<open>auto intro: ranI\<close>)
qed

section \<open>Decisions of the system\<close>

definition decided :: "node_id set \<Rightarrow> (node_id \<times> statement) set \<Rightarrow> sequence_number \<Rightarrow> hash \<Rightarrow> bool" where
  "decided H S n d \<longleftrightarrow> (\<exists>k\<in>H. \<exists>v. (k, CommitStatement v n d) \<in> S)"

definition backed ::
  "node_id set \<Rightarrow> node_id set \<Rightarrow> (node_id \<times> statement) set \<Rightarrow> sequence_number \<Rightarrow> hash \<Rightarrow> bool" where
  "backed R H S n d \<longleftrightarrow>
     (\<exists>Q \<subseteq> R. code_quorum (card R) \<le> card Q \<and> (\<forall>j\<in>Q \<inter> H. (j, PrepareStatement 0 n d) \<in> S))"

definition all_backed :: "node_id set \<Rightarrow> node_id set \<Rightarrow> (node_id \<times> statement) set \<Rightarrow> bool" where
  "all_backed R H S \<longleftrightarrow> (\<forall>n d. decided H S n d \<longrightarrow> backed R H S n d)"

definition single_prepares :: "node_id set \<Rightarrow> (node_id \<times> statement) set \<Rightarrow> bool" where
  "single_prepares H S \<longleftrightarrow>
     (\<forall>c\<in>H. \<forall>n d d'. (c, PrepareStatement 0 n d) \<in> S \<longrightarrow> (c, PrepareStatement 0 n d') \<in> S \<longrightarrow> d = d')"

definition group_size :: "node_id set \<Rightarrow> node_id set \<Rightarrow> bool" where
  "group_size R H \<longleftrightarrow>
     (\<exists>f. finite R \<and> card R = 3 * f + 1 \<and> card R < 2 ^ 64 \<and> card (R - H) \<le> f)"

lemma backed_mono: "backed R H S n d \<Longrightarrow> S \<subseteq> T \<Longrightarrow> backed R H T n d"
  unfolding backed_def by blast

lemma decided_Un: "decided H (S \<union> T) n d \<longleftrightarrow> decided H S n d \<or> decided H T n d"
  by (auto simp: decided_def)

lemma decided_unique:
  assumes "group_size R H" and "all_backed R H S" and "single_prepares H S"
    and "decided H S n d" and "decided H S n d'"
  shows "d = d'"
proof -
  obtain f where g: "finite R" "card R = 3 * f + 1" "card R < 2 ^ 64" "card (R - H) \<le> f"
    using assms(1) by (auto simp: group_size_def)
  obtain A where A: "A \<subseteq> R" "code_quorum (card R) \<le> card A" "\<forall>j\<in>A \<inter> H. (j, PrepareStatement 0 n d) \<in> S"
    using assms(2,4) unfolding all_backed_def backed_def by blast
  obtain B where B: "B \<subseteq> R" "code_quorum (card R) \<le> card B" "\<forall>j\<in>B \<inter> H. (j, PrepareStatement 0 n d') \<in> S"
    using assms(2,5) unfolding all_backed_def backed_def by blast
  obtain c where "c \<in> A" "c \<in> B" "c \<in> H"
    using pbft.common_correct [OF g A(1) B(1) A(2) B(2)] by blast
  with A(3) B(3) assms(3) show ?thesis unfolding single_prepares_def by blast
qed

section \<open>One update\<close>

definition prepared_signed :: "(node_id \<times> statement) set \<Rightarrow> node_id \<Rightarrow> ('sk, 'vk) pbft_state \<Rightarrow> bool" where
  "prepared_signed S k s \<longleftrightarrow>
     (\<forall>n inst. hm_get (st_log s) n = Some inst \<longrightarrow> ci_phase inst = Prepared \<or> ci_phase inst = Committed \<longrightarrow>
        (\<exists>d v. ci_digest inst = Some d \<and> (k, CommitStatement v n d) \<in> S))"

lemma prepared_signedD:
  "prepared_signed S k s \<Longrightarrow> hm_get (st_log s) n = Some inst \<Longrightarrow>
   ci_phase inst = Prepared \<or> ci_phase inst = Committed \<Longrightarrow>
   \<exists>d. ci_digest inst = Some d \<and> (k \<in> H \<longrightarrow> decided H S n d)"
  unfolding prepared_signed_def decided_def by blast

lemma prepared_signed_put:
  assumes "prepared_signed S k s" and "S \<subseteq> T"
    and "ci_phase inst = Prepared \<or> ci_phase inst = Committed \<Longrightarrow>
      \<exists>d v. ci_digest inst = Some d \<and> (k, CommitStatement v n d) \<in> T"
    and "st_log t = hm_insert n inst (st_log s)"
  shows "prepared_signed T k t"
  using assms unfolding prepared_signed_def by (auto split: if_splits) blast+

lemma prepared_signed_keep:
  assumes "prepared_signed S k s" and "S \<subseteq> T"
    and "\<And>n inst. hm_get (st_log t) n = Some inst \<Longrightarrow> hm_get (st_log s) n = Some inst"
  shows "prepared_signed T k t"
  using assms unfolding prepared_signed_def by blast

lemma atomic_prepared_signed:
  assumes "atomic L M s es s'" and "prepared_signed S (st_node_id s) s"
  shows "prepared_signed (S \<union> {st_node_id s} \<times> statements es) (st_node_id s) s'"
proof -
  note put = prepared_signed_put [OF assms(2) Un_upper1]
  have old: "\<exists>d v. ci_digest (instance_at now n s) = Some d \<and> (st_node_id s, CommitStatement v n d) \<in> S"
    if "ci_phase (instance_at now n s) = Prepared \<or> ci_phase (instance_at now n s) = Committed" for now n
    using assms(2) that unfolding prepared_signed_def by (auto simp: instance_at_def split: option.splits)
  from assms(1) show ?thesis
  proof cases
    case (propose req n pp pr now)
    then show ?thesis by (intro put [where n = n]) simp_all
  next
    case (accept pp n now pr)
    then show ?thesis by (intro put [where n = n]) simp_all
  next
    case (add_prepare pr n inst now)
    with old [of now n] show ?thesis by (intro put [where n = n]) auto
  next
    case (add_commit cm n inst now)
    with old [of now n] show ?thesis by (intro put [where n = n]) auto
  next
    case (become_prepared n inst d cm)
    then show ?thesis
      by (intro put [where n = n]) (auto simp: own_commit_def)
  next
    case (execute n inst req)
    then show ?thesis
      using old [of 0 n] by (intro put [where n = n]) (auto simp: instance_at_present)
  next
    case (finish n inst)
    then show ?thesis
      using old [of 0 n] by (intro put [where n = n]) (auto simp: instance_at_present)
  next
    case (stabilise n)
    then show ?thesis
      by (intro prepared_signed_keep [OF assms(2) Un_upper1]) (auto split: if_splits)
  qed (rule prepared_signed_keep [OF assms(2) Un_upper1], simp)+
qed

text \<open>A commit is signed when a quorum of prepares is there, and an update signs at most one.\<close>

lemma atomic_signs_commit:
  assumes "atomic L M s es s'" and "CommitStatement v n d \<in> statements es"
  obtains inst where "hm_get (st_log s) n = Some inst" "ci_pre_prepare inst \<noteq> None"
    "state_quorum s \<le> hm_len (ci_prepares inst)" "ci_digest inst = Some d"
    "statements es = {CommitStatement v n d}" "st_executed s' = st_executed s"
  using assms(1)
proof cases
  case (become_prepared m inst e cm)
  with assms(2) show ?thesis by (intro that [of inst]) (auto simp: own_commit_def state_quorum_def)
qed (use assms(2) in auto)

lemma signed_commit_backed:
  assumes "clean M s" and "state_wf L s" and "votes_authentic H S s" and "hm_get (st_log s) n = Some inst"
    and "ci_pre_prepare inst \<noteq> None" and "state_quorum s \<le> hm_len (ci_prepares inst)"
    and "ci_digest inst = Some d" and "R = set (st_replicas s)" and "state_quorum s = code_quorum (card R)"
  shows "backed R H S n d"
proof -
  have w: "instance_wf L (state_quorum s) (st_executed s) n inst"
    using assms(2,4) by (auto simp: state_wf_def dest: log_wfD)
  obtain pp where pp: "ci_pre_prepare inst = Some pp" "pp_digest pp = d"
    using w assms(5,7) by (auto simp: instance_wf_def proposal_wf_def)
  have votes: "j \<in> R \<and> pr_view pr = 0 \<and> pr_digest pr = d" if "hm_get (ci_prepares inst) j = Some pr" for j pr
    using assms(1,4,8) pp that by (fastforce simp: clean_def votes_match_def)
  have "(j, PrepareStatement 0 n d) \<in> S" if "j \<in> hm_keys (ci_prepares inst)" "j \<in> H" for j
    using that votes assms(3,4) by (fastforce simp: hm_keys_def votes_authentic_def)
  moreover have "hm_keys (ci_prepares inst) \<subseteq> R" using votes by (auto simp: hm_keys_def)
  ultimately show ?thesis
    using assms(6,9) unfolding backed_def by (intro exI [of _ "hm_keys (ci_prepares inst)"]) (auto simp: hm_len_card)
qed

text \<open>An update executes at most one digest, that of a prepared entry.\<close>

lemma atomic_executed:
  assumes "atomic L M s es s'" and "state_wf L s"
  obtains "st_executed s' = st_executed s"
  | n inst d where "hm_get (st_log s) n = Some inst" "ci_phase inst = Prepared" "ci_digest inst = Some d"
      "d \<notin> st_executed s" "st_executed s' = insert d (st_executed s)" "statements es = {}"
  using assms(1)
proof cases
  case (execute n inst req)
  have w: "instance_wf L (state_quorum s) (st_executed s) n inst"
    using assms(2) execute(3) by (auto simp: state_wf_def dest: log_wfD)
  have "ci_phase inst \<noteq> Idle" using execute(4) by simp
  then obtain pp :: pre_prepare where pp: "ci_digest inst = Some (pp_digest pp)" "ci_request inst = Some (pp_request pp)"
      "request_digest L (pp_request pp) = pp_digest pp"
    using instance_certificates(3) [OF w] by blast
  show ?thesis
    by (rule that(2) [of n inst "pp_digest pp"]) (use execute pp in auto)
qed (auto intro: that(1))

section \<open>One event\<close>

text \<open>What an event at \<open>k\<close> keeps, from the abstract log \<open>g0\<close> that stands for the system before it.\<close>

definition event_log ::
  "node_id set \<Rightarrow> (node_id \<times> statement) set \<Rightarrow> node_id \<Rightarrow> group_log \<Rightarrow> ('sk, 'vk) pbft_state \<Rightarrow> group_log \<Rightarrow> bool" where
  "event_log H S k g0 s g \<longleftrightarrow>
     log_steps H g0 g \<and> (\<forall>n d. gl_decided g n = Some d \<longleftrightarrow> decided H S n d) \<and>
     gl_executed g = (gl_executed g0)(k := st_executed s)"

definition ledger_history ::
  "('sk, 'vk) crypto_lib \<Rightarrow> node_id set \<Rightarrow> consensus_message set \<Rightarrow> (node_id \<times> statement) set \<Rightarrow> node_id
     \<Rightarrow> node_id set \<Rightarrow> group_log \<Rightarrow> ('sk, 'vk) pbft_state \<Rightarrow> effect list \<Rightarrow> bool" where
  "ledger_history L H M S k R g0 s h \<longleftrightarrow>
     clean_history L H M S k s h \<and> R = set (st_replicas s) \<and> state_quorum s = code_quorum (card R) \<and>
     group_size R H \<and> single_prepares (H - {k}) S \<and>
     ((\<forall>pp. announces pp h \<longrightarrow> pp_sequence pp \<noteq> 0) \<longrightarrow>
        all_backed R H (S \<union> {k} \<times> statements h) \<and> prepared_signed (S \<union> {k} \<times> statements h) k s \<and>
        (\<exists>g. event_log H (S \<union> {k} \<times> statements h) k g0 s g))"

lemma single_prepares_now:
  assumes "single_prepares (H - {k}) S" and "signer_ok (prepare_statements k (S \<union> {k} \<times> A)) s"
  shows "single_prepares H (S \<union> {k} \<times> A)"
  using assms unfolding single_prepares_def signer_ok_def prepare_statements_def by blast

lemma all_backed_step:
  assumes "all_backed R H S" and "\<And>n d v. CommitStatement v n d \<in> A \<Longrightarrow> backed R H S n d"
  shows "all_backed R H (S \<union> {k} \<times> A)"
  unfolding all_backed_def
proof (intro allI impI)
  fix n d
  assume "decided H (S \<union> {k} \<times> A) n d"
  then have "decided H S n d \<or> (\<exists>v. CommitStatement v n d \<in> A)"
    unfolding decided_def by blast
  then have "backed R H S n d" using assms unfolding all_backed_def by blast
  then show "backed R H (S \<union> {k} \<times> A) n d" by (rule backed_mono) blast
qed

text \<open>The abstract log takes at most one step per update.\<close>

lemma event_log_step:
  assumes "event_log H S k g0 s g" and "k \<in> H" and "st_node_id s = k" and "atomic L M s es s'"
    and "state_wf L s" and "prepared_signed S k s"
    and unique: "\<And>n d d'. decided H (S \<union> {k} \<times> statements es) n d \<Longrightarrow>
      decided H (S \<union> {k} \<times> statements es) n d' \<Longrightarrow> d = d'"
  shows "\<exists>g'. event_log H (S \<union> {k} \<times> statements es) k g0 s' g'"
proof -
  from assms(1) have g: "log_steps H g0 g" and dec: "gl_decided g n = Some d \<longleftrightarrow> decided H S n d"
    and exec: "gl_executed g = (gl_executed g0)(k := st_executed s)" for n d
    by (simp_all add: event_log_def)
  let ?S = "S \<union> {k} \<times> statements es"
  show ?thesis
  proof (cases "\<exists>v n d. CommitStatement v n d \<in> statements es \<and> \<not> decided H S n d")
    case True
    then obtain v n d where c: "CommitStatement v n d \<in> statements es" and new: "\<not> decided H S n d" by blast
    obtain inst where i: "statements es = {CommitStatement v n d}" "st_executed s' = st_executed s"
      using atomic_signs_commit [OF assms(4) c] by blast
    have here: "decided H ?S n d" using c assms(2) unfolding decided_def by blast
    have "\<not> decided H S n e" for e
      using unique [OF here, of e] new by (auto simp: decided_Un)
    then have none: "gl_decided g n = None" using dec [of n] by (cases "gl_decided g n") auto
    have ext: "decided H ?S m e \<longleftrightarrow> decided H S m e \<or> m = n \<and> e = d" for m e
      using assms(2) by (auto simp: decided_def i(1))
    let ?g = "g\<lparr>gl_decided := (gl_decided g)(n \<mapsto> d)\<rparr>"
    have "log_steps H g0 ?g" by (rule rtranclp.rtrancl_into_rtrancl [OF g decide [OF none]])
    moreover have "gl_decided ?g m = Some e \<longleftrightarrow> decided H ?S m e" for m e
      using ext [of m e] dec [of m e] none dec [of n e] by auto
    ultimately show ?thesis using i(2) exec by (intro exI [of _ ?g]) (simp add: event_log_def)
  next
    case False
    then have same: "decided H ?S m e \<longleftrightarrow> decided H S m e" for m e
      unfolding decided_def by blast
    from assms(4,5) show ?thesis
    proof (cases rule: atomic_executed)
      case 1
      with same dec g exec show ?thesis by (intro exI [of _ g]) (simp add: event_log_def)
    next
      case (2 n inst d)
      have "decided H S n d" using prepared_signedD [OF assms(6) 2(1), of H] 2(2,3) assms(2) by auto
      then have d: "gl_decided g n = Some d" by (simp add: dec)
      have fresh: "d \<notin> gl_executed g k" using 2(4) exec by simp
      let ?g = "g\<lparr>gl_executed := (gl_executed g)(k := insert d (gl_executed g k))\<rparr>"
      have "log_steps H g0 ?g"
        by (rule rtranclp.rtrancl_into_rtrancl [OF g carry_out [OF assms(2) d fresh]])
      then show ?thesis
        using same dec exec 2(5) by (intro exI [of _ ?g]) (simp add: event_log_def)
    qed
  qed
qed

lemma atomic_ledger_history:
  assumes "ledger_history L H M S k R g0 s h" and "atomic L M s es s'"
  shows "ledger_history L H M S k R g0 s' (h @ es)"
proof -
  from assms(1) have c: "clean_history L H M S k s h"
    and r: "R = set (st_replicas s)" "state_quorum s = code_quorum (card R)" "group_size R H"
      "single_prepares (H - {k}) S"
    unfolding ledger_history_def by blast+
  have c': "clean_history L H M S k s' (h @ es)" by (rule atomic_clean_history [OF c assms(2)])
  have id: "st_node_id s = k" "k \<in> H" "state_wf L s" "votes_authentic H (S \<union> {k} \<times> statements h) s"
    using c by (simp_all add: clean_history_def honest_history_def)
  let ?S = "S \<union> {k} \<times> statements h" and ?A = "{k} \<times> statements es"
  have S': "S \<union> {k} \<times> statements (h @ es) = ?S \<union> ?A" by auto
  have "all_backed R H (?S \<union> ?A) \<and> prepared_signed (?S \<union> ?A) k s' \<and> (\<exists>g. event_log H (?S \<union> ?A) k g0 s' g)"
    if z: "\<forall>pp. announces pp (h @ es) \<longrightarrow> pp_sequence pp \<noteq> 0"
  proof -
    have z': "\<forall>pp. announces pp h \<longrightarrow> pp_sequence pp \<noteq> 0" using z by (auto simp: announces_def)
    with assms(1) obtain g where ab: "all_backed R H ?S" and ps: "prepared_signed ?S k s"
      and g: "event_log H ?S k g0 s g"
      unfolding ledger_history_def by blast
    have clean: "clean M s" using c z' by (simp add: clean_history_def)
    have ab': "all_backed R H (?S \<union> ?A)"
    proof (rule all_backed_step [OF ab])
      fix n d v
      assume "CommitStatement v n d \<in> statements es"
      then show "backed R H ?S n d"
        by (rule atomic_signs_commit [OF assms(2)]) (rule signed_commit_backed [OF clean id(3,4) _ _ _ _ r(1,2)])
    qed
    have "signer_ok (prepare_statements k (S \<union> {k} \<times> statements (h @ es))) s'"
      using c' z by (simp add: clean_history_def honest_history_def)
    then have "single_prepares H (?S \<union> ?A)"
      using single_prepares_now [OF r(4)] unfolding S' [symmetric] by blast
    then have "\<And>n d d'. decided H (?S \<union> ?A) n d \<Longrightarrow> decided H (?S \<union> ?A) n d' \<Longrightarrow> d = d'"
      by (rule decided_unique [OF r(3) ab'])
    from event_log_step [OF g id(2,1) assms(2) id(3) ps this] ab'
      atomic_prepared_signed [OF assms(2), of ?S] ps id(1)
    show ?thesis by simp
  qed
  with c' r atomic_same_replica [OF assms(2)] show ?thesis
    unfolding ledger_history_def S' by (simp add: same_replica_def state_quorum_def)
qed

interpretation ledger_inv: history_invariant "atomic L M" "ledger_history L H M S k R g0" for L M H S k R g0
  by unfold_locales (rule atomic_ledger_history)

section \<open>The system\<close>

definition represents :: "node_id set \<Rightarrow> ('sk, 'vk) system \<Rightarrow> group_log \<Rightarrow> bool" where
  "represents H y g \<longleftrightarrow>
     (\<forall>n d. gl_decided g n = Some d \<longleftrightarrow> decided H (sys_signed y) n d) \<and>
     (\<forall>i\<in>H. gl_executed g i = st_executed (sys_nodes y i))"

definition ledger_ok :: "node_id list \<Rightarrow> node_id set \<Rightarrow> ('sk, 'vk) system \<Rightarrow> bool" where
  "ledger_ok replicas H y \<longleftrightarrow>
     all_backed (set replicas) H (sys_signed y) \<and>
     (\<forall>i\<in>H. prepared_signed (sys_signed y) i (sys_nodes y i))"

lemma correct_group_size:
  assumes "correct_group L keys replicas f H"
  shows "group_size (set replicas) H" and "card (set replicas) = length replicas"
  using correct_groupD(2-6) [OF assms] by (auto simp: group_size_def distinct_card)

lemma ledger_ok_step:
  assumes "correct_group L keys replicas f H" and "system_ok L H keys replicas m y"
    and "\<And>i. i \<in> H \<Longrightarrow> clean {} (sys_nodes y i)" and "ledger_ok replicas H y"
    and "represents H y g" and "system_step L H orderly y y'" and "Suc m < 2 ^ 64"
  shows "ledger_ok replicas H y' \<and> (\<exists>g'. log_steps H g g' \<and> represents H y' g')"
  using assms(6)
proof cases
  case 1: (event_at k ev r s' es)
  let ?s = "sys_nodes y k" and ?S = "sys_signed y"
  let ?S' = "?S \<union> {k} \<times> statements es"
  note ok = assms(2) [unfolded system_ok_def, rule_format, OF \<open>k \<in> H\<close>]
  have "unat (st_sequence ?s + 1) = (unat (st_sequence ?s) + 1) mod 2 ^ 64" by (simp add: unat_word_ariths)
  with ok assms(7) have nz: "st_sequence ?s + 1 \<noteq> 0" by (auto simp: unat_eq_0 [symmetric])
  have "signer_ok (prepare_statements c ?S) (sys_nodes y c)" if "c \<in> H" for c
    using assms(2) that by (simp add: system_ok_def)
  then have single: "single_prepares (H - {k}) ?S"
    unfolding single_prepares_def signer_ok_def prepare_statements_def by blast
  have q: "state_quorum ?s = code_quorum (card (set replicas))" "set replicas = set (st_replicas ?s)"
    using ok correct_group_size(2) [OF assms(1)] by (simp_all add: state_quorum_def code_quorum_def)
  have start: "event_log H ?S k g ?s g"
    using assms(5) 1(2) by (simp add: event_log_def represents_def fun_upd_idem)
  have clean0: "clean_history L H (event_messages ev) ?S k ?s []"
    using 1 ok correct_groupD(1) [OF assms(1)] orderly_clean [OF assms(3) [OF 1(2)] 1(3)]
    by (simp add: clean_history_def honest_history_def)
  have "ledger_history L H (event_messages ev) ?S k (set replicas) g s' es"
  proof (rule ledger_inv.trace_from_start [OF replica_step_trace [OF 1(5) subset_refl]])
    show "ledger_history L H (event_messages ev) ?S k (set replicas) g ?s []"
      using clean0 q correct_group_size(1) [OF assms(1)] single start assms(4) 1(2)
      unfolding ledger_history_def ledger_ok_def by auto
  qed
  moreover have "pp_sequence pp \<noteq> 0" if "announces pp es" for pp
    using replica_step_announces [OF 1(5) that] nz by simp
  ultimately obtain g' where new: "all_backed (set replicas) H ?S'" "prepared_signed ?S' k s'"
    and g': "event_log H ?S' k g s' g'"
    unfolding ledger_history_def by blast
  have "prepared_signed ?S' i (sys_nodes y i)" if "i \<in> H" for i
    using assms(4) that by (auto simp: ledger_ok_def intro: prepared_signed_keep)
  then have "ledger_ok replicas H y'" using new 1(1) by (simp add: ledger_ok_def)
  moreover have "represents H y' g'"
    using g' assms(5) 1(1) by (auto simp: represents_def event_log_def)
  ultimately show ?thesis using g' by (auto simp: event_log_def)
qed

lemma represents_init: "represents H (system_init clock keys replicas) empty_log"
  by (simp add: represents_def empty_log_def system_init_def decided_def)

lemma ledger_reach:
  assumes "correct_group L keys replicas f H"
    and "system_reach L H orderly (system_init clock keys replicas) m y" and "m < 2 ^ 64"
  shows "ledger_ok replicas H y \<and> (\<exists>g. log_steps H empty_log g \<and> represents H y g)"
  using assms(2,3)
proof (induction rule: system_reach.induct)
  case reach_init
  have "ledger_ok replicas H (system_init clock keys replicas)"
    by (simp add: ledger_ok_def system_init_def all_backed_def decided_def prepared_signed_def)
  with represents_init show ?case by blast
next
  case (reach_step m y y')
  then have m: "m < 2 ^ 64" by simp
  with reach_step obtain g where "log_steps H empty_log g" "represents H y g" "ledger_ok replicas H y" by blast
  with ledger_ok_step [OF assms(1) system_ok_reach [OF assms(1) reach_step.hyps(1) m]
      clean_reach [OF assms(1) reach_step.hyps(1) m] _ _ reach_step.hyps(2) reach_step.prems]
  show ?case by (meson rtranclp_trans)
qed

lemma ledger_holds_commits:
  assumes "ledger_ok replicas H y" and "represents H y g" and "i \<in> H"
    and "hm_get (st_log (sys_nodes y i)) n = Some inst" and "ci_phase inst = Committed"
  shows "ci_digest inst = gl_decided g n"
proof -
  have "prepared_signed (sys_signed y) i (sys_nodes y i)" using assms(1,3) by (simp add: ledger_ok_def)
  from prepared_signedD [OF this assms(4), of H] assms(3,5)
  obtain d where d: "ci_digest inst = Some d" "decided H (sys_signed y) n d" by blast
  then have "gl_decided g n = Some d" using assms(2) unfolding represents_def by blast
  with d(1) show ?thesis by simp
qed

lemma system_reach_trans:
  assumes "system_reach L H D y0 m y" and "system_reach L H D y m' y'"
  shows "system_reach L H D y0 (m + m') y'"
  using assms(2)
  by (induction rule: system_reach.induct) (auto intro: assms(1) system_reach.intros)

lemma ledger_forward:
  assumes "correct_group L keys replicas f H"
    and "system_reach L H orderly (system_init clock keys replicas) m y" and "represents H y g"
    and "system_reach L H orderly y m' y'" and "m + m' < 2 ^ 64"
  shows "\<exists>g'. log_steps H g g' \<and> represents H y' g'"
  using assms(4,5)
proof (induction rule: system_reach.induct)
  case reach_init
  then show ?case using assms(3) by blast
next
  case (reach_step m' y' y'')
  then obtain g' where g': "log_steps H g g'" "represents H y' g'" by auto
  note reach = system_reach_trans [OF assms(2) reach_step.hyps(1)]
  have lt: "m + m' < 2 ^ 64" "Suc (m + m') < 2 ^ 64" using reach_step.prems by simp_all
  obtain g'' where "log_steps H g' g''" "represents H y'' g''"
    using ledger_ok_step [OF assms(1) system_ok_reach [OF assms(1) reach lt(1)]
        clean_reach [OF assms(1) reach lt(1)] _ g'(2) reach_step.hyps(2) lt(2)]
      ledger_reach [OF assms(1) reach lt(1)] by blast
  with g'(1) show ?case by (meson rtranclp_trans)
qed

text \<open>Committed entries agree over time, also when the earlier one has been discarded since.\<close>

lemma commits_stable:
  assumes "correct_group L keys replicas f H"
    and "system_reach L H orderly (system_init clock keys replicas) m y"
    and "system_reach L H orderly y m' y'" and "m + m' < 2 ^ 64" and "i \<in> H" and "j \<in> H"
    and "hm_get (st_log (sys_nodes y i)) n = Some a" and "ci_phase a = Committed"
    and "hm_get (st_log (sys_nodes y' j)) n = Some b" and "ci_phase b = Committed"
  shows "\<exists>d. ci_digest a = Some d \<and> ci_digest b = Some d"
proof -
  have m: "m < 2 ^ 64" using assms(4) by simp
  obtain g where g: "represents H y g" and ok: "ledger_ok replicas H y"
    using ledger_reach [OF assms(1,2) m] by blast
  obtain g' where g': "log_steps H g g'" "represents H y' g'"
    using ledger_forward [OF assms(1,2) g assms(3,4)] by blast
  have ok': "ledger_ok replicas H y'"
    using ledger_reach [OF assms(1) system_reach_trans [OF assms(2,3)] assms(4)] by blast
  have a: "ci_digest a = gl_decided g n" by (rule ledger_holds_commits [OF ok g assms(5,7,8)])
  have b: "ci_digest b = gl_decided g' n" by (rule ledger_holds_commits [OF ok' g'(2) assms(6,9,10)])
  obtain d where d: "ci_digest a = Some d"
    using ok assms(5,7,8) unfolding ledger_ok_def prepared_signed_def by blast
  with a have "gl_decided g n = Some d" by simp
  then have "gl_decided g' n = Some d"
    using log_steps_write_once(1) [OF g'(1)] unfolding map_le_def by (metis domI)
  with b d show ?thesis by simp
qed

section \<open>Properties\<close>

text \<open>
  C2. Under orderly delivery, with at most \<open>f\<close> of \<open>3 f + 1\<close> replicas Byzantine, the group refines
  a log that is written once: the initial system stands for the empty log, every orderly event at a
  correct replica is a sequence of steps of the abstract machine (deciding a digest for an undecided
  sequence number, or executing at one replica a decided digest that it has not executed), and at
  every time what a correct replica holds as committed is what the abstract log holds.
\<close>

theorem group_refines_log:
  assumes "correct_group L keys replicas f H"
    and "system_reach L H orderly (system_init clock keys replicas) m y" and "Suc m < 2 ^ 64"
    and "represents H y g" and "system_step L H orderly y y'"
  shows "represents H (system_init clock keys replicas) empty_log \<and>
    (\<exists>g'. log_steps H g g' \<and> represents H y' g' \<and>
      (\<forall>i\<in>H. \<forall>n inst. hm_get (st_log (sys_nodes y' i)) n = Some inst \<longrightarrow> ci_phase inst = Committed \<longrightarrow>
         ci_digest inst = gl_decided g' n))"
proof -
  have m: "m < 2 ^ 64" using assms(3) by simp
  obtain g' where "ledger_ok replicas H y'" "log_steps H g g'" "represents H y' g'"
    using ledger_ok_step [OF assms(1) system_ok_reach [OF assms(1,2) m] clean_reach [OF assms(1,2) m]
        _ assms(4,5,3)] ledger_reach [OF assms(1,2) m] by blast
  with represents_init ledger_holds_commits show ?thesis by blast
qed

end
