(* ===== verification/Group_Run.thy ===== *)
theory Group_Run
  imports Ledger Scenarios
begin

text \<open>
  A run of a group of four, one of them faulty, in which two backups commit a request: blocks of
  events, each at one replica, joined to a run of the system.
\<close>

fun admissible ::
  "('sk, 'vk) crypto_lib \<Rightarrow> (event \<Rightarrow> ('sk, 'vk) pbft_state \<Rightarrow> bool) \<Rightarrow> event list
     \<Rightarrow> ('sk, 'vk) pbft_state \<Rightarrow> bool" where
  "admissible L D [] s = True"
| "admissible L D (ev # evs) s =
     (D ev s \<and> (case replica_step L ev s of (r, s', es) \<Rightarrow> r \<noteq> Panic \<and> admissible L D evs s'))"

lemma block_reach:
  assumes "system_reach L H D y0 m y" and "i \<in> H" and "admissible L D evs (sys_nodes y i)"
    and "\<And>ev msg. ev \<in> set evs \<Longrightarrow> msg \<in> event_messages ev \<Longrightarrow> authentic L H (sys_signed y) msg"
    and "replica_run L evs (sys_nodes y i) = (True, s', es)"
  shows "system_reach L H D y0 (m + length evs)
    \<lparr>sys_nodes = (sys_nodes y)(i := s'), sys_signed = sys_signed y \<union> {i} \<times> statements es\<rparr>"
  using assms(1,3,4,5)
proof (induction evs arbitrary: y m es)
  case Nil
  then have "s' = sys_nodes y i" and "es = []" by simp_all
  with Nil show ?case by (cases y) (simp add: fun_upd_idem del: fun_upd_apply)
next
  case (Cons ev evs)
  obtain r t fs where st: "replica_step L ev (sys_nodes y i) = (r, t, fs)" using prod_cases3 by blast
  let ?y = "\<lparr>sys_nodes = (sys_nodes y)(i := t), sys_signed = sys_signed y \<union> {i} \<times> statements fs\<rparr>"
  from Cons.prems(2) st have adm: "D ev (sys_nodes y i)" "r \<noteq> Panic" "admissible L D evs t" by auto
  obtain al u gs where ru: "replica_run L evs t = (al, u, gs)" using prod_cases3 by blast
  with Cons.prems(4) st adm(2) have eq: "al" "u = s'" "es = fs @ gs" by (cases r; simp)+
  have "system_step L H D y ?y"
    using assms(2) adm(1) st Cons.prems(3) by (intro event_at) auto
  then have y: "system_reach L H D y0 (Suc m) ?y" by (rule reach_step [OF Cons.prems(1)])
  have "system_reach L H D y0 (Suc m + length evs)
      \<lparr>sys_nodes = (sys_nodes ?y)(i := s'), sys_signed = sys_signed ?y \<union> {i} \<times> statements gs\<rparr>"
  proof (rule Cons.IH [OF y])
    show "authentic L H (sys_signed ?y) msg" if "e \<in> set evs" "msg \<in> event_messages e" for e msg
      using Cons.prems(3) [of e msg] that by (auto intro: authentic_mono)
  qed (use adm(3) ru eq in simp_all)
  moreover have "sys_signed ?y \<union> {i} \<times> statements gs = sys_signed y \<union> {i} \<times> statements es"
    using eq(3) by auto
  ultimately show ?case by (simp del: fun_upd_apply)
qed

lemma block_joins:
  assumes "system_reach L H D y0 m y" and "i \<in> H" and "sys_nodes y i = s" and "admissible L D evs s"
    and "\<forall>msg \<in> \<Union> (event_messages ` set evs). authentic L H (sys_signed y) msg"
    and "out = replica_run L evs s" and "fst out" and "m' = m + length evs"
  shows "system_reach L H D y0 m'
    \<lparr>sys_nodes = (sys_nodes y)(i := fst (snd out)),
     sys_signed = sys_signed y \<union> {i} \<times> statements (snd (snd out))\<rparr>"
proof -
  have "replica_run L evs (sys_nodes y i) = (True, fst (snd out), snd (snd out))"
    using assms(7) by (simp add: prod_eq_iff assms(3) assms(6) [symmetric])
  from block_reach [OF assms(1,2) _ _ this] assms(3-5,8) show ?thesis by auto
qed

section \<open>Four replicas\<close>

definition toy_keys :: "node_id \<Rightarrow> (byte, byte) keypair" where
  "toy_keys i = (if i = toy_id 0 then toy_keypair 0 else if i = toy_id 1 then toy_keypair 1
     else if i = toy_id 2 then toy_keypair 2 else toy_keypair 3)"

definition toy_correct :: "node_id set" where
  "toy_correct = toy_id ` {0, 1, 2}"

definition toy_group :: "(byte, byte) system" where
  "toy_group = system_init (\<lambda>_. 0) toy_keys (map toy_id [0, 1, 2, 3])"

lemma toy_group_correct: "correct_group toy_lib toy_keys (map toy_id [0, 1, 2, 3]) 1 toy_correct"
  by (auto simp: correct_group_def toy_correct_def toy_keys_def insert_Diff_if)

lemma toy_group_nodes:
  "b \<in> {0, 1, 2} \<Longrightarrow> sys_nodes toy_group (toy_id b) = member b" "sys_signed toy_group = {}"
  by (auto simp: toy_group_def system_init_def toy_keys_def member_def)

abbreviation "sample_pp \<equiv> signed_pre_prepare toy_lib (toy_keypair 0) 0 1 sample_request"
abbreviation "sample_pr b \<equiv> signed_prepare toy_lib (toy_keypair b) 0 1 sample_digest"
abbreviation "sample_cm b \<equiv> signed_commit toy_lib (toy_keypair b) 0 1 sample_digest"

definition primary_1 where "primary_1 = replica_run toy_lib [Receive 1 (Request sample_request)] (member 0)"
definition backup_1 where "backup_1 = replica_run toy_lib [Receive 2 (PrePrepare sample_pp)] (member 1)"
definition primary_2 where
  "primary_2 = replica_run toy_lib [Receive 3 (Prepare (sample_pr 1)), Receive 3 (Prepare (sample_pr 3))]
     (fst (snd primary_1))"
definition backup_2 where
  "backup_2 = replica_run toy_lib [Receive 4 (Prepare (sample_pr 0)), Receive 4 (Prepare (sample_pr 3)),
     Receive 5 (Commit (sample_cm 0)), Receive 5 (Commit (sample_cm 3))] (fst (snd backup_1))"
definition backup_3 where
  "backup_3 = replica_run toy_lib [Receive 2 (PrePrepare sample_pp),
     Receive 4 (Prepare (sample_pr 0)), Receive 4 (Prepare (sample_pr 3)),
     Receive 5 (Commit (sample_cm 0)), Receive 5 (Commit (sample_cm 3))] (member 2)"

lemmas block_defs = primary_1_def primary_2_def backup_1_def backup_2_def backup_3_def
  member_def run_defs sample_digest_def

lemma primary_1: "fst primary_1" "PrepareStatement 0 1 sample_digest \<in> statements (snd (snd primary_1))"
  by (simp_all add: block_defs)

lemma backup_1: "fst backup_1" "PrepareStatement 0 1 sample_digest \<in> statements (snd (snd backup_1))"
  by (simp_all add: block_defs)

lemma primary_2: "fst primary_2" "CommitStatement 0 1 sample_digest \<in> statements (snd (snd primary_2))"
  by (simp_all add: block_defs)

lemma backup_2: "fst backup_2"
  "\<exists>inst. hm_get (st_log (fst (snd backup_2))) 1 = Some inst \<and> ci_phase inst = Committed"
  by (simp_all add: block_defs)

lemma backup_3: "fst backup_3"
  "\<exists>inst. hm_get (st_log (fst (snd backup_3))) 1 = Some inst \<and> ci_phase inst = Committed"
  by (simp_all add: block_defs)

lemma backup_3_digest:
  "\<exists>inst. hm_get (st_log (fst (snd backup_3))) 1 = Some inst \<and> ci_phase inst = Committed \<and>
     ci_digest inst = Some sample_digest"
  by (simp add: block_defs)

lemma backup_3_executed: "sample_digest \<in> st_executed (fst (snd backup_3))"
  by (simp add: block_defs)

definition group_1 where "group_1 = \<lparr>sys_nodes = (sys_nodes toy_group)(toy_id 0 := fst (snd primary_1)),
  sys_signed = sys_signed toy_group \<union> {toy_id 0} \<times> statements (snd (snd primary_1))\<rparr>"
definition group_2 where "group_2 = \<lparr>sys_nodes = (sys_nodes group_1)(toy_id 1 := fst (snd backup_1)),
  sys_signed = sys_signed group_1 \<union> {toy_id 1} \<times> statements (snd (snd backup_1))\<rparr>"
definition group_3 where "group_3 = \<lparr>sys_nodes = (sys_nodes group_2)(toy_id 0 := fst (snd primary_2)),
  sys_signed = sys_signed group_2 \<union> {toy_id 0} \<times> statements (snd (snd primary_2))\<rparr>"
definition group_4 where "group_4 = \<lparr>sys_nodes = (sys_nodes group_3)(toy_id 1 := fst (snd backup_2)),
  sys_signed = sys_signed group_3 \<union> {toy_id 1} \<times> statements (snd (snd backup_2))\<rparr>"
definition group_5 where "group_5 = \<lparr>sys_nodes = (sys_nodes group_4)(toy_id 2 := fst (snd backup_3)),
  sys_signed = sys_signed group_4 \<union> {toy_id 2} \<times> statements (snd (snd backup_3))\<rparr>"

lemmas group_defs = group_1_def group_2_def group_3_def group_4_def group_5_def

lemma orderly_blocks:
  "admissible toy_lib orderly [Receive 1 (Request sample_request)] (member 0)"
  "admissible toy_lib orderly [Receive 2 (PrePrepare sample_pp)] (member 1)"
  "admissible toy_lib orderly [Receive 3 (Prepare (sample_pr 1)), Receive 3 (Prepare (sample_pr 3))]
     (fst (snd primary_1))"
  "admissible toy_lib orderly [Receive 4 (Prepare (sample_pr 0)), Receive 4 (Prepare (sample_pr 3)),
     Receive 5 (Commit (sample_cm 0)), Receive 5 (Commit (sample_cm 3))] (fst (snd backup_1))"
  "admissible toy_lib orderly [Receive 2 (PrePrepare sample_pp),
     Receive 4 (Prepare (sample_pr 0)), Receive 4 (Prepare (sample_pr 3)),
     Receive 5 (Commit (sample_cm 0)), Receive 5 (Commit (sample_cm 3))] (member 2)"
  by (simp_all add: block_defs proposed_def)

lemma authentic_sample:
  "b \<in> {0, 1, 2} \<Longrightarrow> (toy_id b, PrepareStatement 0 1 sample_digest) \<in> S \<Longrightarrow>
     authentic toy_lib toy_correct S (Prepare (sample_pr b))"
  "b \<in> {0, 1, 2} \<Longrightarrow> (toy_id b, CommitStatement 0 1 sample_digest) \<in> S \<Longrightarrow>
     authentic toy_lib toy_correct S (Commit (sample_cm b))"
  "(toy_id 0, PrepareStatement 0 1 sample_digest) \<in> S \<Longrightarrow>
     authentic toy_lib toy_correct S (PrePrepare sample_pp)"
  "authentic toy_lib toy_correct S (Prepare (sample_pr 3))"
  "authentic toy_lib toy_correct S (Commit (sample_cm 3))"
  "authentic toy_lib toy_correct S (Request sample_request)"
  by (auto simp: authentic_def toy_correct_def sample_digest_def)

lemma group_nodes:
  "sys_nodes toy_group (toy_id 0) = member 0" "sys_nodes group_1 (toy_id 1) = member 1"
  "sys_nodes group_2 (toy_id 0) = fst (snd primary_1)" "sys_nodes group_3 (toy_id 1) = fst (snd backup_1)"
  "sys_nodes group_4 (toy_id 2) = member 2"
  "sys_nodes group_5 (toy_id 1) = fst (snd backup_2)" "sys_nodes group_5 (toy_id 2) = fst (snd backup_3)"
  by (simp_all add: group_defs toy_group_nodes)

lemma group_signed:
  "(toy_id 0, PrepareStatement 0 1 sample_digest) \<in> sys_signed group_1"
  "sys_signed group_1 \<subseteq> sys_signed group_2" "sys_signed group_2 \<subseteq> sys_signed group_3"
  "sys_signed group_3 \<subseteq> sys_signed group_4"
  "(toy_id 1, PrepareStatement 0 1 sample_digest) \<in> sys_signed group_2"
  "(toy_id 0, CommitStatement 0 1 sample_digest) \<in> sys_signed group_3"
  using primary_1(2) backup_1(2) primary_2(2) by (auto simp: group_defs)

definition is_receive :: "event \<Rightarrow> bool" where
  "is_receive ev \<longleftrightarrow> (case ev of Receive now msg \<Rightarrow> True | _ \<Rightarrow> False)"

lemma sample_run:
  assumes "\<And>ev s. orderly ev s \<Longrightarrow> is_receive ev \<Longrightarrow> fst (replica_step toy_lib ev s) \<noteq> Panic \<Longrightarrow> D ev s"
  shows "system_reach toy_lib toy_correct D toy_group 13 group_5"
proof -
  have adm: "admissible toy_lib D evs s"
    if "admissible toy_lib orderly evs s" "list_all is_receive evs" for evs s
    using that by (induction evs arbitrary: s) (auto intro!: assms split: prod.splits)
  have mem: "toy_id 0 \<in> toy_correct" "toy_id 1 \<in> toy_correct" "toy_id 2 \<in> toy_correct"
    by (simp_all add: toy_correct_def)
  have "system_reach toy_lib toy_correct D toy_group 1 group_1"
    unfolding group_1_def
    by (rule block_joins [OF reach_init mem(1) group_nodes(1) adm [OF orderly_blocks(1)] _ primary_1_def primary_1(1)])
      (simp_all add: is_receive_def authentic_sample)
  then have "system_reach toy_lib toy_correct D toy_group 2 group_2"
    unfolding group_2_def
    by (rule block_joins [OF _ mem(2) group_nodes(2) adm [OF orderly_blocks(2)] _ backup_1_def backup_1(1)])
      (simp_all add: is_receive_def authentic_sample group_signed(1))
  then have "system_reach toy_lib toy_correct D toy_group 4 group_3"
    unfolding group_3_def
    by (rule block_joins [OF _ mem(1) group_nodes(3) adm [OF orderly_blocks(3)] _ primary_2_def primary_2(1)])
      (simp_all add: is_receive_def authentic_sample group_signed)
  then have "system_reach toy_lib toy_correct D toy_group 8 group_4"
    unfolding group_4_def
    by (rule block_joins [OF _ mem(2) group_nodes(4) adm [OF orderly_blocks(4)] _ backup_2_def backup_2(1)])
      (simp_all add: is_receive_def authentic_sample group_signed group_signed(2,3) [THEN subsetD])
  then show ?thesis
    unfolding group_5_def
    by (rule block_joins [OF _ mem(3) group_nodes(5) adm [OF orderly_blocks(5)] _ backup_3_def backup_3(1)])
      (simp_all add: is_receive_def authentic_sample group_signed group_signed(2,3,4) [THEN subsetD])
qed

section \<open>Agreement at the run\<close>

lemma sample_certificates:
  "prepare_certificate (sys_nodes group_5 (toy_id 1)) 0 1 sample_digest"
  "prepare_certificate (sys_nodes group_5 (toy_id 2)) 0 1 sample_digest"
proof -
  have d: "\<exists>inst. hm_get (st_log (fst (snd backup_2))) 1 = Some inst \<and> ci_phase inst = Committed \<and>
      ci_digest inst = Some sample_digest"
    "\<exists>inst. hm_get (st_log (fst (snd backup_3))) 1 = Some inst \<and> ci_phase inst = Committed \<and>
      ci_digest inst = Some sample_digest"
    by (simp_all add: block_defs)
  note reach = sample_run [of orderly, unfolded toy_group_def]
  have cert: "prepare_certificate (sys_nodes group_5 i) 0 1 sample_digest"
    if "i \<in> toy_correct" "hm_get (st_log (sys_nodes group_5 i)) 1 = Some inst" "ci_phase inst = Committed"
      "ci_digest inst = Some sample_digest" for i inst
    using clean_certificate [OF _ clean_reach [OF toy_group_correct reach _ that(1)] that(2)] that
      system_ok_reach [OF toy_group_correct reach] by (auto simp: system_ok_def)
  show "prepare_certificate (sys_nodes group_5 (toy_id 1)) 0 1 sample_digest"
    and "prepare_certificate (sys_nodes group_5 (toy_id 2)) 0 1 sample_digest"
    using cert d group_nodes(6,7) by (metis image_eqI insertCI toy_correct_def)+
qed

theorem prepare_certificates_agree_witness:
  "\<exists>d d'. system_reach toy_lib toy_correct (\<lambda>_ _. True) toy_group 13 group_5 \<and>
     prepare_certificate (sys_nodes group_5 (toy_id 1)) 0 1 d \<and>
     prepare_certificate (sys_nodes group_5 (toy_id 2)) 0 1 d' \<and> d = d'"
proof -
  have reach: "system_reach toy_lib toy_correct (\<lambda>_ _. True) toy_group 13 group_5"
    by (rule sample_run) simp
  obtain d d' where c: "prepare_certificate (sys_nodes group_5 (toy_id 1)) 0 1 d"
    "prepare_certificate (sys_nodes group_5 (toy_id 2)) 0 1 d'"
    using sample_certificates by blast
  have "d = d'"
    by (rule prepare_certificates_agree [OF toy_group_correct reach [unfolded toy_group_def] _ _ _ c])
      (simp_all add: toy_correct_def)
  with reach c show ?thesis by blast
qed

theorem committed_entries_agree_witness:
  "\<exists>a b d. system_reach toy_lib toy_correct orderly toy_group 13 group_5 \<and>
     hm_get (st_log (sys_nodes group_5 (toy_id 1))) 1 = Some a \<and> ci_phase a = Committed \<and>
     hm_get (st_log (sys_nodes group_5 (toy_id 2))) 1 = Some b \<and> ci_phase b = Committed \<and>
     ci_digest a = Some d \<and> ci_digest b = Some d"
proof -
  have reach: "system_reach toy_lib toy_correct orderly toy_group 13 group_5"
    by (rule sample_run)
  obtain a b where ab: "hm_get (st_log (sys_nodes group_5 (toy_id 1))) 1 = Some a" "ci_phase a = Committed"
    "hm_get (st_log (sys_nodes group_5 (toy_id 2))) 1 = Some b" "ci_phase b = Committed"
    using backup_2(2) backup_3(2) group_nodes(6,7) by metis
  have "\<exists>d. ci_digest a = Some d \<and> ci_digest b = Some d"
    by (rule committed_entries_agree [OF toy_group_correct reach [unfolded toy_group_def] _ _ _ ab])
      (simp_all add: toy_correct_def)
  with reach ab show ?thesis by blast
qed

section \<open>The abstract log of the run\<close>

text \<open>A reply changes nothing, so the run can go on with one.\<close>

lemma system_eta [simp]: "\<lparr>sys_nodes = sys_nodes y, sys_signed = sys_signed y\<rparr> = y"
  by (cases y) simp

lemma group_5_step: "system_step toy_lib toy_correct orderly group_5 group_5"
proof -
  let ?ev = "Receive 9 (Reply \<lparr>rp_view = 0, rp_timestamp = 0, rp_client_id = [], rp_replica_id = [],
    rp_result = [], rp_signature = []\<rparr>)"
  have "system_step toy_lib toy_correct orderly group_5
      \<lparr>sys_nodes = (sys_nodes group_5)(toy_id 1 := sys_nodes group_5 (toy_id 1)),
       sys_signed = sys_signed group_5 \<union> {toy_id 1} \<times> statements []\<rparr>"
    by (rule event_at [where ev = ?ev and r = "Ok ()"])
      (simp_all add: toy_correct_def authentic_def replica_step_def process_message_def)
  then show ?thesis by simp
qed

theorem group_refines_log_witness:
  "\<exists>g g'. log_steps toy_correct empty_log g \<and> log_steps toy_correct g g' \<and>
     gl_decided g' 1 = Some sample_digest \<and> sample_digest \<in> gl_executed g' (toy_id 2)"
proof -
  have reach: "system_reach toy_lib toy_correct orderly (system_init (\<lambda>_. 0) toy_keys (map toy_id [0, 1, 2, 3]))
      13 group_5"
    using sample_run [of orderly] by (simp add: toy_group_def)
  obtain g where g: "log_steps toy_correct empty_log g" "represents toy_correct group_5 g"
    using ledger_reach [OF toy_group_correct reach] by auto
  obtain g' where g': "log_steps toy_correct g g'" "represents toy_correct group_5 g'"
    and held: "\<And>i n inst. i \<in> toy_correct \<Longrightarrow> hm_get (st_log (sys_nodes group_5 i)) n = Some inst \<Longrightarrow>
      ci_phase inst = Committed \<Longrightarrow> ci_digest inst = gl_decided g' n"
    using group_refines_log [OF toy_group_correct reach _ g(2) group_5_step] by auto
  have two: "toy_id 2 \<in> toy_correct" by (simp add: toy_correct_def)
  obtain inst where i: "hm_get (st_log (fst (snd backup_3))) 1 = Some inst" "ci_phase inst = Committed"
    "ci_digest inst = Some sample_digest"
    using backup_3_digest by blast
  have "gl_decided g' 1 = Some sample_digest"
    using held [OF two, of 1 inst] i group_nodes(7) by simp
  moreover have "sample_digest \<in> gl_executed g' (toy_id 2)"
    using g'(2) two backup_3_executed group_nodes(7) by (simp add: represents_def)
  ultimately show ?thesis using g(1) g'(1) by blast
qed

end
