(* ===== verification/Limits.thy ===== *)
theory Limits
  imports Group_Run
begin

text \<open>
  Agreement needs the conditions of \<open>orderly\<close>: a run of a group of four, one of them faulty, in
  which two correct replicas commit different requests at one sequence number.
\<close>

section \<open>Two requests, one sequence number\<close>

abbreviation "other_pp \<equiv> signed_pre_prepare toy_lib (toy_keypair 0) 0 1 other_request"
abbreviation "other_pr b \<equiv> signed_prepare toy_lib (toy_keypair b) 0 1 other_digest"
abbreviation "other_cm b \<equiv> signed_commit toy_lib (toy_keypair b) 0 1 other_digest"

text \<open>
  The primary (replica 0) is faulty and proposes \<open>other_request\<close> to replicas 2 and 3, which commit
  it. Replica 1 receives their votes before any pre-prepare: with no proposal to compare with, it
  stores them. When the primary then sends it \<open>sample_request\<close> the stored votes are counted.
\<close>

definition split_correct :: "node_id set" where
  "split_correct = toy_id ` {1, 2, 3}"

definition split_2a where "split_2a = replica_run toy_lib [Receive 1 (PrePrepare other_pp)] (member 2)"
definition split_3 where
  "split_3 = replica_run toy_lib [Receive 1 (PrePrepare other_pp), Receive 2 (Prepare (other_pr 0)),
     Receive 2 (Prepare (other_pr 2))] (member 3)"
definition split_2b where
  "split_2b = replica_run toy_lib [Receive 3 (Prepare (other_pr 0)), Receive 3 (Prepare (other_pr 3)),
     Receive 4 (Commit (other_cm 0)), Receive 4 (Commit (other_cm 3))] (fst (snd split_2a))"
definition split_1 where
  "split_1 = replica_run toy_lib [Receive 3 (Prepare (other_pr 2)), Receive 3 (Prepare (sample_pr 0)),
     Receive 4 (Commit (other_cm 2)), Receive 4 (Commit (sample_cm 0)),
     Receive 5 (PrePrepare sample_pp)] (member 1)"

lemmas split_defs = split_2a_def split_3_def split_2b_def split_1_def
  member_def run_defs sample_digest_def other_digest_def

lemma split_2a: "fst split_2a" "PrepareStatement 0 1 other_digest \<in> statements (snd (snd split_2a))"
  by (simp_all add: split_defs)

lemma split_3: "fst split_3" "PrepareStatement 0 1 other_digest \<in> statements (snd (snd split_3))"
  "CommitStatement 0 1 other_digest \<in> statements (snd (snd split_3))"
  by (simp_all add: split_defs)

lemma split_2b: "fst split_2b" "CommitStatement 0 1 other_digest \<in> statements (snd (snd split_2b))"
  "\<exists>inst. hm_get (st_log (fst (snd split_2b))) 1 = Some inst \<and> ci_phase inst = Committed \<and>
     ci_digest inst = Some other_digest"
  by (simp_all add: split_defs)

lemma split_1: "fst split_1"
  "\<exists>inst. hm_get (st_log (fst (snd split_1))) 1 = Some inst \<and> ci_phase inst = Committed \<and>
     ci_digest inst = Some sample_digest"
  by (simp_all add: split_defs)

lemma split_group: "correct_group toy_lib toy_keys (map toy_id [0, 1, 2, 3]) 1 split_correct"
  by (auto simp: correct_group_def split_correct_def toy_keys_def insert_Diff_if)

lemma toy_group_node_3: "sys_nodes toy_group (toy_id 3) = member 3"
  by (simp add: toy_group_def system_init_def toy_keys_def member_def)

lemma split_admissible: "admissible toy_lib (\<lambda>_ _. True) evs s \<longleftrightarrow> fst (replica_run toy_lib evs s)"
  by (induction evs arbitrary: s) (auto split: prod.splits res.splits)

definition split_state_1 where "split_state_1 = \<lparr>sys_nodes = (sys_nodes toy_group)(toy_id 2 := fst (snd split_2a)),
  sys_signed = sys_signed toy_group \<union> {toy_id 2} \<times> statements (snd (snd split_2a))\<rparr>"
definition split_state_2 where "split_state_2 = \<lparr>sys_nodes = (sys_nodes split_state_1)(toy_id 3 := fst (snd split_3)),
  sys_signed = sys_signed split_state_1 \<union> {toy_id 3} \<times> statements (snd (snd split_3))\<rparr>"
definition split_state_3 where "split_state_3 = \<lparr>sys_nodes = (sys_nodes split_state_2)(toy_id 2 := fst (snd split_2b)),
  sys_signed = sys_signed split_state_2 \<union> {toy_id 2} \<times> statements (snd (snd split_2b))\<rparr>"
definition split_state_4 where "split_state_4 = \<lparr>sys_nodes = (sys_nodes split_state_3)(toy_id 1 := fst (snd split_1)),
  sys_signed = sys_signed split_state_3 \<union> {toy_id 1} \<times> statements (snd (snd split_1))\<rparr>"

lemmas split_group_defs = split_state_1_def split_state_2_def split_state_3_def split_state_4_def

lemma split_nodes:
  "sys_nodes toy_group (toy_id 2) = member 2" "sys_nodes split_state_1 (toy_id 3) = member 3"
  "sys_nodes split_state_2 (toy_id 2) = fst (snd split_2a)" "sys_nodes split_state_3 (toy_id 1) = member 1"
  "sys_nodes split_state_4 (toy_id 1) = fst (snd split_1)" "sys_nodes split_state_4 (toy_id 2) = fst (snd split_2b)"
  by (simp_all add: split_group_defs toy_group_nodes toy_group_node_3)

lemma split_signed:
  "(toy_id 2, PrepareStatement 0 1 other_digest) \<in> sys_signed split_state_1"
  "(toy_id 3, PrepareStatement 0 1 other_digest) \<in> sys_signed split_state_2"
  "(toy_id 3, CommitStatement 0 1 other_digest) \<in> sys_signed split_state_2"
  "(toy_id 2, PrepareStatement 0 1 other_digest) \<in> sys_signed split_state_3"
  "(toy_id 2, CommitStatement 0 1 other_digest) \<in> sys_signed split_state_3"
  using split_2a(2) split_3(2,3) split_2b(2) by (auto simp: split_group_defs)

lemma split_authentic:
  "b \<in> {1, 2, 3} \<Longrightarrow> (toy_id b, PrepareStatement 0 1 other_digest) \<in> S \<Longrightarrow>
     authentic toy_lib split_correct S (Prepare (other_pr b))"
  "b \<in> {1, 2, 3} \<Longrightarrow> (toy_id b, CommitStatement 0 1 other_digest) \<in> S \<Longrightarrow>
     authentic toy_lib split_correct S (Commit (other_cm b))"
  "authentic toy_lib split_correct S (PrePrepare other_pp)" "authentic toy_lib split_correct S (PrePrepare sample_pp)"
  "authentic toy_lib split_correct S (Prepare (other_pr 0))" "authentic toy_lib split_correct S (Prepare (sample_pr 0))"
  "authentic toy_lib split_correct S (Commit (other_cm 0))" "authentic toy_lib split_correct S (Commit (sample_cm 0))"
  by (auto simp: authentic_def split_correct_def)

lemma split_run: "system_reach toy_lib split_correct (\<lambda>_ _. True) toy_group 13 split_state_4"
proof -
  have mem: "toy_id 1 \<in> split_correct" "toy_id 2 \<in> split_correct" "toy_id 3 \<in> split_correct"
    by (simp_all add: split_correct_def)
  note auth = split_authentic split_signed
  have adm: "admissible toy_lib (\<lambda>_ _. True) evs s" if "fst out" "out = replica_run toy_lib evs s" for out evs s
    using that by (simp add: split_admissible)
  have "system_reach toy_lib split_correct (\<lambda>_ _. True) toy_group 1 split_state_1"
    unfolding split_state_1_def
    by (rule block_joins [OF reach_init mem(2) split_nodes(1) adm [OF split_2a(1) split_2a_def] _ split_2a_def split_2a(1)])
      (simp_all add: auth)
  then have "system_reach toy_lib split_correct (\<lambda>_ _. True) toy_group 4 split_state_2"
    unfolding split_state_2_def
    by (rule block_joins [OF _ mem(3) split_nodes(2) adm [OF split_3(1) split_3_def] _ split_3_def split_3(1)])
      (simp_all add: auth)
  then have "system_reach toy_lib split_correct (\<lambda>_ _. True) toy_group 8 split_state_3"
    unfolding split_state_3_def
    by (rule block_joins [OF _ mem(2) split_nodes(3) adm [OF split_2b(1) split_2b_def] _ split_2b_def split_2b(1)])
      (simp_all add: auth)
  then show ?thesis
    unfolding split_state_4_def
    by (rule block_joins [OF _ mem(1) split_nodes(4) adm [OF split_1(1) split_1_def] _ split_1_def split_1(1)])
      (simp_all add: auth)
qed

section \<open>Properties\<close>

text \<open>
  C20. Without the order condition agreement fails: votes that arrive before the pre-prepare are
  stored without a digest to compare with and counted for whatever is proposed later, so one
  faulty primary among four replicas can make two correct replicas commit different requests at
  one sequence number.
\<close>

theorem early_votes_break_agreement:
  "\<exists>y a b. correct_group toy_lib toy_keys (map toy_id [0, 1, 2, 3]) 1 split_correct \<and>
     toy_id 1 \<in> split_correct \<and> toy_id 2 \<in> split_correct \<and>
     system_reach toy_lib split_correct (\<lambda>_ _. True) toy_group 13 y \<and>
     hm_get (st_log (sys_nodes y (toy_id 1))) 1 = Some a \<and> ci_phase a = Committed \<and>
     hm_get (st_log (sys_nodes y (toy_id 2))) 1 = Some b \<and> ci_phase b = Committed \<and>
     ci_digest a \<noteq> ci_digest b"
  using split_group split_run split_1(2) split_2b(3) split_nodes(5,6) other_digest_neq
  by (intro exI [of _ "split_state_4"]) (auto simp: split_correct_def)

end
