(* ===== verification/Collected_Votes.thy ===== *)
theory Collected_Votes
  imports Replica_Safety Scenarios
begin

text \<open>
  The two protocols that collect messages by sequence number or view and act on a quorum of
  identifiers: checkpoints, which move the water marks and drop the log below them, and view
  changes, on which the next primary announces the new view; and the timeout that starts a view
  change.
\<close>

section \<open>Checkpoints\<close>

definition checkpoint_ids :: "sequence_number \<Rightarrow> ('sk, 'vk) pbft_state \<Rightarrow> node_id set" where
  "checkpoint_ids n s =
     (case hm_get (st_checkpoints s) n of Some e \<Rightarrow> hm_keys e | None \<Rightarrow> {})"

lemma checkpoint_count_card: "checkpoint_count n s = card (checkpoint_ids n s)"
  by (simp add: checkpoint_count_def checkpoint_ids_def hm_len_card split: option.splits)

lemma checkpoint_ids_store:
  "checkpoint_ids n (store_checkpoint cp s) =
     (if cp_sequence cp = n then insert (cp_replica_id cp) (checkpoint_ids n s) else checkpoint_ids n s)"
  by (auto simp: checkpoint_ids_def store_checkpoint_eq split: option.splits)

lemma finite_checkpoint_ids [simp]: "finite (checkpoint_ids n s)"
  by (simp add: checkpoint_ids_def split: option.splits)

definition stable_at :: "sequence_number \<Rightarrow> ('sk, 'vk) pbft_state \<Rightarrow> ('sk, 'vk) pbft_state \<Rightarrow> bool" where
  "stable_at n s t \<longleftrightarrow>
     st_stable_checkpoint t = n \<and> st_low_watermark t = n \<and>
     st_high_watermark t = n + cf_checkpoint_interval (st_config s) * 2 \<and>
     (\<forall>k. hm_get (st_log t) k = (if n < k then hm_get (st_log s) k else None))"

definition collecting ::
  "sequence_number \<Rightarrow> ('sk, 'vk) pbft_state \<Rightarrow> node_id set \<Rightarrow> ('sk, 'vk) pbft_state \<Rightarrow> bool" where
  "collecting n s I t \<longleftrightarrow>
     st_config t = st_config s \<and>
     (if card I < state_quorum s
      then st_stable_checkpoint t = st_stable_checkpoint s \<and> st_log t = st_log s \<and> checkpoint_ids n t = I
      else stable_at n s t)"

lemma collecting_step:
  assumes "collecting n s I t" and "cp_sequence cp = n" and "st_stable_checkpoint s < n" and "finite I"
  shows "\<exists>t'. handle_checkpoint cp t = (Ok (), t', []) \<and> collecting n s (insert (cp_replica_id cp) I) t'"
proof (cases "card I < state_quorum s")
  case False
  let ?t = "store_checkpoint cp t"
  have "card I \<le> card (insert (cp_replica_id cp) I)" using assms(4) by (simp add: card_insert_if)
  with False have "\<not> card (insert (cp_replica_id cp) I) < state_quorum s" by simp
  moreover have st: "stable_at n s t" using assms(1) False by (simp add: collecting_def)
  moreover have "handle_checkpoint cp t = (Ok (), ?t, [])"
    using st assms(2) by (simp add: handle_checkpoint_def Let_def stable_at_def)
  ultimately show ?thesis using assms(1) by (simp add: collecting_def stable_at_def)
next
  case True
  let ?t = "store_checkpoint cp t" and ?I = "insert (cp_replica_id cp) I"
  from assms(1) True have t: "st_config t = st_config s" "st_stable_checkpoint t = st_stable_checkpoint s"
    "st_log t = st_log s" "checkpoint_ids n t = I" by (simp_all add: collecting_def)
  have ids: "checkpoint_ids n ?t = ?I" using t(4) assms(2) by (simp add: checkpoint_ids_store)
  show ?thesis
  proof (cases "card ?I < state_quorum s")
    case True
    then have "handle_checkpoint cp t = (Ok (), ?t, [])"
      using t ids assms(2) by (simp add: handle_checkpoint_def Let_def checkpoint_count_card state_quorum_def)
    with t ids True show ?thesis by (simp add: collecting_def)
  next
    case False
    then have "handle_checkpoint cp t = (Ok (), make_stable n ?t, [])"
      using t ids assms(2,3) by (simp add: handle_checkpoint_def Let_def checkpoint_count_card state_quorum_def)
    with t False show ?thesis by (simp add: collecting_def stable_at_def)
  qed
qed

lemma collecting_run:
  assumes "collecting n s I t" and "\<And>cp. cp \<in> set cps \<Longrightarrow> cp_sequence cp = n"
    and "st_stable_checkpoint s < n" and "finite I"
  shows "\<exists>t'. replica_run L (map (\<lambda>cp. Receive now (Checkpoint cp)) cps) t = (True, t', []) \<and>
    collecting n s (cp_replica_id ` set cps \<union> I) t'"
  using assms(1,2,4)
proof (induction cps arbitrary: I t)
  case Nil
  then show ?case by simp
next
  case (Cons cp cps)
  from Cons.prems(2) have "cp_sequence cp = n" by simp
  from collecting_step [OF Cons.prems(1) this assms(3) Cons.prems(3)] obtain u
    where u: "handle_checkpoint cp t = (Ok (), u, [])" "collecting n s (insert (cp_replica_id cp) I) u"
    by blast
  have "\<exists>t'. replica_run L (map (\<lambda>cp. Receive now (Checkpoint cp)) cps) u = (True, t', []) \<and>
    collecting n s (cp_replica_id ` set cps \<union> insert (cp_replica_id cp) I) t'"
    by (rule Cons.IH [OF u(2)]) (use Cons.prems in auto)
  with u(1) show ?case by (simp add: replica_step_def process_message_def)
qed

section \<open>View changes\<close>

definition view_change_ids :: "view_number \<Rightarrow> ('sk, 'vk) pbft_state \<Rightarrow> node_id set" where
  "view_change_ids v s = (case hm_get (st_view_changes s) v of Some e \<Rightarrow> hm_keys e | None \<Rightarrow> {})"

lemma view_change_count_card: "view_change_count v s = card (view_change_ids v s)"
  by (simp add: view_change_count_def view_change_ids_def hm_len_card split: option.splits)

lemma view_change_ids_store:
  "view_change_ids v (store_view_change vc s) =
     (if vc_new_view vc = v then insert (vc_replica_id vc) (view_change_ids v s) else view_change_ids v s)"
  by (auto simp: view_change_ids_def store_view_change_eq split: option.splits)

lemma handle_view_change_stores:
  assumes "st_view s < vc_new_view vc" and "primary_of (st_replicas s) (vc_new_view vc) = Some (st_node_id s)"
  shows "\<exists>es. handle_view_change L vc s = (Ok (), store_view_change vc s, es) \<and>
    (state_quorum s \<le> card (view_change_ids (vc_new_view vc) (store_view_change vc s)) \<longrightarrow>
      (\<exists>nv. es = [Out (Broadcast (Consensus (NewView nv)))] \<and> nv_new_view nv = vc_new_view vc \<and>
        length (nv_view_changes nv) = card (view_change_ids (vc_new_view vc) (store_view_change vc s))))"
  using assms
  by (auto simp: handle_view_change_def handle_view_change_section_def Let_def not_le
      view_change_count_card [symmetric] view_change_count_def state_quorum_def split: option.splits)

lemma view_change_run:
  assumes "\<And>vc. vc \<in> set vcs \<Longrightarrow> vc_new_view vc = v" and "st_view s < v"
    and "primary_of (st_replicas s) v = Some (st_node_id s)"
  shows "\<exists>t es. replica_run L (map (\<lambda>vc. Receive now (ViewChange vc)) vcs) s = (True, t, es) \<and>
    st_view t = st_view s \<and> view_change_ids v t = vc_replica_id ` set vcs \<union> view_change_ids v s \<and>
    (vcs \<noteq> [] \<and> state_quorum s \<le> card (view_change_ids v t) \<longrightarrow>
      (\<exists>nv. Out (Broadcast (Consensus (NewView nv))) \<in> set es \<and> nv_new_view nv = v \<and>
        state_quorum s \<le> length (nv_view_changes nv)))"
  using assms
proof (induction vcs arbitrary: s)
  case Nil
  then show ?case by simp
next
  case (Cons vc vcs)
  let ?u = "store_view_change vc s"
  from Cons.prems(1) have v: "vc_new_view vc = v" by simp
  then obtain fs where u: "handle_view_change L vc s = (Ok (), ?u, fs)"
    and ann: "state_quorum s \<le> card (view_change_ids v ?u) \<Longrightarrow>
      \<exists>nv. fs = [Out (Broadcast (Consensus (NewView nv)))] \<and> nv_new_view nv = v \<and>
        length (nv_view_changes nv) = card (view_change_ids v ?u)"
    using handle_view_change_stores [of s vc L] Cons.prems(2,3) by auto
  have q: "state_quorum ?u = state_quorum s" by (simp add: state_quorum_def)
  have "\<exists>t es. replica_run L (map (\<lambda>vc. Receive now (ViewChange vc)) vcs) ?u = (True, t, es) \<and>
    st_view t = st_view ?u \<and> view_change_ids v t = vc_replica_id ` set vcs \<union> view_change_ids v ?u \<and>
    (vcs \<noteq> [] \<and> state_quorum ?u \<le> card (view_change_ids v t) \<longrightarrow>
      (\<exists>nv. Out (Broadcast (Consensus (NewView nv))) \<in> set es \<and> nv_new_view nv = v \<and>
        state_quorum ?u \<le> length (nv_view_changes nv)))"
    by (rule Cons.IH) (use Cons.prems in simp_all)
  then obtain t es where t: "replica_run L (map (\<lambda>vc. Receive now (ViewChange vc)) vcs) ?u = (True, t, es)"
    "st_view t = st_view s" "view_change_ids v t = vc_replica_id ` set vcs \<union> view_change_ids v ?u"
    and out: "vcs \<noteq> [] \<and> state_quorum s \<le> card (view_change_ids v t) \<Longrightarrow>
      \<exists>nv. Out (Broadcast (Consensus (NewView nv))) \<in> set es \<and> nv_new_view nv = v \<and>
        state_quorum s \<le> length (nv_view_changes nv)"
    unfolding q store_view_change_frame by blast
  have "replica_run L (map (\<lambda>vc. Receive now (ViewChange vc)) (vc # vcs)) s = (True, t, fs @ es)"
    using u t(1) by (simp add: replica_step_def process_message_def)
  moreover have "view_change_ids v t = vc_replica_id ` set (vc # vcs) \<union> view_change_ids v s"
    using t(3) v by (auto simp: view_change_ids_store)
  moreover have "\<exists>nv. Out (Broadcast (Consensus (NewView nv))) \<in> set (fs @ es) \<and> nv_new_view nv = v \<and>
        state_quorum s \<le> length (nv_view_changes nv)" if "state_quorum s \<le> card (view_change_ids v t)"
  proof (cases "vcs = []")
    case True
    with t(1) have "t = ?u" by simp
    with ann that show ?thesis by force
  next
    case False
    with out that show ?thesis by auto
  qed
  ultimately show ?case using t(2) by blast
qed

lemma new_view_only:
  assumes "replica_step L ev s = (r, s', es)" and "st_view s' \<noteq> st_view s"
  shows "\<exists>now nv. ev = Receive now (NewView nv)"
proof (rule ccontr)
  assume no: "\<nexists>now nv. ev = Receive now (NewView nv)"
  have "st_view t = st_view u" if "etrace (atomic L M) u fs t" "\<And>nv. NewView nv \<notin> M" for M u fs t
    using that
  proof (induction rule: etrace.induct)
    case (etrace_step a as b bs c)
    from etrace_step(1) etrace_step.prems have "st_view b = st_view a" by (cases) auto
    with etrace_step show ?case by simp
  qed simp
  moreover have "NewView nv \<notin> event_messages ev" for nv
    using no by (cases ev) auto
  ultimately show False
    using replica_step_trace [OF assms(1) subset_refl] assms(2) by blast
qed

section \<open>Properties\<close>

text \<open>
  C14. Checkpoint messages for a sequence number above the stable checkpoint from a quorum of
  distinct identifiers make it stable, whatever their signatures and in whatever order they come:
  the water marks move to it, every log entry at or below it is dropped and every entry above it
  is kept. Fewer identifiers move nothing.
\<close>

theorem checkpoints_stabilise:
  assumes "\<And>cp. cp \<in> set cps \<Longrightarrow> cp_sequence cp = n" and "st_stable_checkpoint s < n"
    and "hm_get (st_checkpoints s) n = None"
  shows "\<exists>t. replica_run L (map (\<lambda>cp. Receive now (Checkpoint cp)) cps) s = (True, t, []) \<and>
    (if card (cp_replica_id ` set cps) < state_quorum s
     then st_stable_checkpoint t = st_stable_checkpoint s \<and> st_log t = st_log s
     else stable_at n s t)"
proof -
  have "0 < state_quorum s" by (simp add: state_quorum_def quorum_positive)
  then have "collecting n s {} s" using assms(3) by (simp add: collecting_def checkpoint_ids_def)
  from collecting_run [OF this assms(1,2) finite.emptyI, of cps L now] show ?thesis
    by (auto simp: collecting_def)
qed

theorem checkpoints_stabilise_witness:
  "\<exists>t. replica_run toy_lib (map (\<lambda>cp. Receive 9 (Checkpoint cp))
      (map (\<lambda>i. \<lparr>cp_sequence = 100, cp_digest = zero_digest, cp_replica_id = i, cp_signature = []\<rparr>)
         [''x'', ''y'', ''z''])) (member 1) = (True, t, []) \<and> st_stable_checkpoint t = 100"
proof -
  let ?cps = "map (\<lambda>i. \<lparr>cp_sequence = 100, cp_digest = zero_digest, cp_replica_id = i, cp_signature = []\<rparr>)
         [''x'', ''y'', ''z'']"
  have "\<exists>t. replica_run toy_lib (map (\<lambda>cp. Receive 9 (Checkpoint cp)) ?cps) (member 1) = (True, t, []) \<and>
    (if card (cp_replica_id ` set ?cps) < state_quorum (member 1)
     then st_stable_checkpoint t = st_stable_checkpoint (member 1) \<and> st_log t = st_log (member 1)
     else stable_at 100 (member 1) t)"
    by (rule checkpoints_stabilise) (auto simp: member_def)
  moreover have "\<not> card (cp_replica_id ` set ?cps) < state_quorum (member 1)"
    by (simp add: member_def state_quorum_def)
  ultimately show ?thesis unfolding stable_at_def by (simp only: if_False) blast
qed

text \<open>
  C15. View changes to a view from a quorum of distinct identifiers make its primary broadcast a
  new view that carries at least a quorum of view changes; the announcing replica itself stays in
  its old view.
\<close>

theorem view_changes_announce_new_view:
  assumes "\<And>vc. vc \<in> set vcs \<Longrightarrow> vc_new_view vc = v" and "st_view s < v"
    and "primary_of (st_replicas s) v = Some (st_node_id s)"
    and "state_quorum s \<le> card (vc_replica_id ` set vcs)"
  shows "\<exists>t es nv. replica_run L (map (\<lambda>vc. Receive now (ViewChange vc)) vcs) s = (True, t, es) \<and>
    Out (Broadcast (Consensus (NewView nv))) \<in> set es \<and> nv_new_view nv = v \<and>
    state_quorum s \<le> length (nv_view_changes nv) \<and> st_view t = st_view s"
proof -
  have "0 < state_quorum s" by (simp add: state_quorum_def quorum_positive)
  then have ne: "vcs \<noteq> []" using assms(4) by auto
  obtain t es where t: "replica_run L (map (\<lambda>vc. Receive now (ViewChange vc)) vcs) s = (True, t, es)"
    "st_view t = st_view s" "view_change_ids v t = vc_replica_id ` set vcs \<union> view_change_ids v s"
    and out: "vcs \<noteq> [] \<and> state_quorum s \<le> card (view_change_ids v t) \<Longrightarrow>
      \<exists>nv. Out (Broadcast (Consensus (NewView nv))) \<in> set es \<and> nv_new_view nv = v \<and>
        state_quorum s \<le> length (nv_view_changes nv)"
    using view_change_run [OF assms(1-3), where L = L and now = now] by blast
  have "finite (view_change_ids v s)" by (simp add: view_change_ids_def split: option.splits)
  then have "card (vc_replica_id ` set vcs) \<le> card (view_change_ids v t)"
    unfolding t(3) by (intro card_mono) auto
  with out ne assms(4) t show ?thesis by fastforce
qed

theorem view_changes_announce_new_view_witness:
  "\<exists>t es nv. replica_run toy_lib (map (\<lambda>vc. Receive 9 (ViewChange vc))
      (map (\<lambda>i. \<lparr>vc_new_view = 1, vc_replica_id = toy_id i, vc_last_sequence = 0, vc_signature = []\<rparr>)
         [0, 2, 3])) (member 1) = (True, t, es) \<and>
     Out (Broadcast (Consensus (NewView nv))) \<in> set es \<and> nv_new_view nv = 1"
proof -
  let ?vcs = "map (\<lambda>i. \<lparr>vc_new_view = 1, vc_replica_id = toy_id i, vc_last_sequence = 0, vc_signature = []\<rparr>)
         [0, 2, 3]"
  have "\<exists>t es nv. replica_run toy_lib (map (\<lambda>vc. Receive 9 (ViewChange vc)) ?vcs) (member 1) = (True, t, es) \<and>
    Out (Broadcast (Consensus (NewView nv))) \<in> set es \<and> nv_new_view nv = 1 \<and>
    state_quorum (member 1) \<le> length (nv_view_changes nv) \<and> st_view t = st_view (member 1)"
    by (rule view_changes_announce_new_view) (auto simp: member_def primary_of_def state_quorum_def)
  then show ?thesis by blast
qed

text \<open>
  C16. Only a new-view message moves the view: no other message, no timeout and no own view change
  does, so the primary that announces a view does not enter it.
\<close>

theorem only_new_view_moves_view:
  "case replica_step L ev s of (r, s', es) \<Rightarrow>
     st_view s' = st_view s \<or>
     (\<exists>now nv. ev = Receive now (NewView nv) \<and> st_view s < nv_new_view nv \<and> st_view s' = nv_new_view nv)"
proof -
  obtain r s' es where st: "replica_step L ev s = (r, s', es)" using prod_cases3 by blast
  show ?thesis
  proof (cases "st_view s' = st_view s")
    case False
    then obtain now nv where ev: "ev = Receive now (NewView nv)" using new_view_only [OF st] by blast
    with st have "handle_new_view now nv s = (r, s', es)" by (simp add: replica_step_def process_message_def)
    then show ?thesis using st ev by (cases rule: handle_new_view_cases) auto
  qed (use st in simp)
qed

text \<open>
  The timer starts a view change exactly when the replica is a backup, no view change is
  pending and the primary has been silent for longer than the timeout; once it has, further ticks
  do nothing.
\<close>

lemma timeout_starts_one_view_change:
  assumes "st_replicas s \<noteq> []"
  shows "if \<not> st_view_changing s \<and> is_primary s = Some False \<and>
      cf_view_change_timeout (st_config s) < now - st_last_primary_activity s
    then \<exists>s' vc. replica_step L (Timer now) s = (Ok (), s', [Out (Broadcast (Consensus (ViewChange vc)))]) \<and>
      vc_new_view vc = st_view s + 1 \<and> vc_replica_id vc = st_node_id s \<and> st_view_changing s' \<and>
      (\<forall>later. replica_step L (Timer later) s' = (Ok (), s', []))
    else replica_step L (Timer now) s = (Ok (), s, [])"
proof -
  obtain p where "primary_of (st_replicas s) (st_view s) = Some p" using primary_of_Some [OF assms] by blast
  then obtain b where b: "is_primary s = Some b" by (simp add: is_primary_def primary_def)
  then show ?thesis
    by (cases b) (auto simp: replica_step_def check_timeout_def start_view_change_def Let_def
        store_view_change_eq)
qed


end
