(* ===== verification/Framing.thy ===== *)
theory Framing
  imports Messages
begin

text \<open>
  Messages on a byte stream, \<open>src/network.rs\<close> lines 429-494: \<open>send_message\<close> writes a four-byte
  little-endian length and the serialized message, \<open>receive_message\<close> reads one back with a limit
  of 16 MiB, \<open>peer_reader\<close> and \<open>peer_writer\<close> repeat them. A stream to read is the list of bytes
  that arrive before it ends; a stream to write takes bytes until the connection breaks.
\<close>

section \<open>Errors and streams\<close>

datatype io_error = UnexpectedEof | ConnectionBroken | InvalidData string | BindFailed

datatype network_error =
    Io io_error
  | Serialization string
  | ConnectionFailed string
  | PeerNotFound node_id
  | ChannelClosed

record writer =
  wr_written :: "byte list"
  wr_room :: "nat option" \<comment> \<open>bytes until the connection breaks\<close>

definition write_all :: "byte list \<Rightarrow> writer \<Rightarrow> (unit, network_error) res \<times> writer" where
  "write_all bs w =
     (case wr_room w of
        None \<Rightarrow> (Ok (), w\<lparr>wr_written := wr_written w @ bs\<rparr>)
      | Some k \<Rightarrow>
          if k < length bs
          then (Err (Io ConnectionBroken), w\<lparr>wr_written := wr_written w @ take k bs, wr_room := Some 0\<rparr>)
          else (Ok (), w\<lparr>wr_written := wr_written w @ bs, wr_room := Some (k - length bs)\<rparr>))"

definition read_exact :: "nat \<Rightarrow> byte list \<Rightarrow> (byte list, network_error) res \<times> byte list" where
  "read_exact n bs =
     (if length bs < n then (Err (Io UnexpectedEof), []) else (Ok (take n bs), drop n bs))"

section \<open>One message\<close>

definition MAX_MESSAGE_SIZE :: nat where
  "MAX_MESSAGE_SIZE = 16 * 1024 * 1024"

definition send_message :: "wire_lib \<Rightarrow> network_message \<Rightarrow> writer \<Rightarrow> (unit, network_error) res \<times> writer" where
  "send_message W msg w =
     (case wire_serialize W msg of
        Panic \<Rightarrow> (Panic, w)
      | Err e \<Rightarrow> (Err (Serialization e), w)
      | Ok data \<Rightarrow>
          (let len = of_nat (length data) :: u32
           in case write_all (u32_to_le_bytes len) w of
                (Ok _, w') \<Rightarrow> write_all data w'
              | (r, w') \<Rightarrow> (r, w')))"

definition receive_message :: "wire_lib \<Rightarrow> byte list \<Rightarrow> (network_message, network_error) res \<times> byte list" where
  "receive_message W bs =
     (case read_exact 4 bs of
        (Panic, rest) \<Rightarrow> (Panic, rest)
      | (Err e, rest) \<Rightarrow> (Err e, rest)
      | (Ok len_buf, rest) \<Rightarrow>
          (let len = unat (u32_from_le_bytes len_buf)
           in if MAX_MESSAGE_SIZE < len
              then (Err (Io (InvalidData (''Message size '' @ show_nat len @ '' exceeds maximum ''
                      @ show_nat MAX_MESSAGE_SIZE))), rest)
              else case read_exact len rest of
                (Panic, rest') \<Rightarrow> (Panic, rest')
              | (Err e, rest') \<Rightarrow> (Err e, rest')
              | (Ok data, rest') \<Rightarrow>
                  (case wire_deserialize W data of
                     Panic \<Rightarrow> (Panic, rest')
                   | Err e \<Rightarrow> (Err (Serialization e), rest')
                   | Ok msg \<Rightarrow> (Ok msg, rest'))))"

lemma receive_message_shorter:
  "receive_message W bs = (Ok m, rest) \<Longrightarrow> length rest < length bs"
  by (auto simp: receive_message_def read_exact_def Let_def split: if_splits res.splits)

section \<open>Reader and writer tasks\<close>

text \<open>
  \<open>peer_reader\<close> ends when the stream does or when nobody takes the messages any more
  (\<open>inbox_open\<close>). \<open>peer_writer\<close> sends what is queued until one send fails.
\<close>

function peer_reader ::
  "wire_lib \<Rightarrow> bool \<Rightarrow> node_id \<Rightarrow> byte list \<Rightarrow> (node_id \<times> network_message) list \<times> (unit, network_error) res" where
  "peer_reader W inbox_open peer_id bs =
     (case receive_message W bs of
        (Panic, _) \<Rightarrow> ([], Panic)
      | (Err e, _) \<Rightarrow> ([], Err e)
      | (Ok msg, rest) \<Rightarrow>
          if inbox_open
          then (case peer_reader W inbox_open peer_id rest of (ms, r) \<Rightarrow> ((peer_id, msg) # ms, r))
          else ([], Ok ()))"
  by pat_completeness auto

termination
  by (relation "measure (\<lambda>(W, inbox_open, peer_id, bs). length bs)") (auto dest: receive_message_shorter [OF sym])

declare peer_reader.simps [simp del]

fun peer_writer :: "wire_lib \<Rightarrow> network_message list \<Rightarrow> writer \<Rightarrow> writer" where
  "peer_writer W [] w = w"
| "peer_writer W (msg # msgs) w =
     (case send_message W msg w of (Ok _, w') \<Rightarrow> peer_writer W msgs w' | (_, w') \<Rightarrow> w')"

section \<open>What a wire format promises\<close>

definition wire_ok :: "wire_lib \<Rightarrow> bool" where
  "wire_ok W \<longleftrightarrow> (\<forall>m bs. lib_serialize W m = Ok bs \<longrightarrow> lib_deserialize W bs = Ok m)"

locale wire_format =
  fixes good :: "'w \<Rightarrow> bool"
    and enc :: "'w \<Rightarrow> 'm \<Rightarrow> (byte list, 'e) res"
    and dec :: "'w \<Rightarrow> byte list \<Rightarrow> ('m, 'f) res"
  assumes dec_enc: "good W \<Longrightarrow> enc W m = Ok bs \<Longrightarrow> dec W bs = Ok m"
begin

lemma enc_inject: "good W \<Longrightarrow> enc W m = Ok bs \<Longrightarrow> enc W m' = Ok bs \<Longrightarrow> m = m'"
  using dec_enc [of W m bs] dec_enc [of W m' bs] by simp

definition encodable :: "nat \<Rightarrow> 'w \<Rightarrow> 'm \<Rightarrow> bool" where
  "encodable limit W m \<longleftrightarrow> (\<exists>bs. enc W m = Ok bs \<and> length bs \<le> limit)"

lemma encodableE:
  assumes "good W" and "encodable limit W m"
  obtains bs where "enc W m = Ok bs" "length bs \<le> limit" "dec W bs = Ok m"
  using assms dec_enc by (auto simp: encodable_def)

end

interpretation bincode: wire_format wire_ok wire_serialize wire_deserialize
  by unfold_locales (simp add: wire_ok_def wire_serialize_def wire_deserialize_def)

definition sendable :: "wire_lib \<Rightarrow> network_message \<Rightarrow> bool" where
  "sendable W m \<longleftrightarrow> bincode.encodable MAX_MESSAGE_SIZE W m"

text \<open>The bytes of a message on the stream.\<close>

definition frame :: "wire_lib \<Rightarrow> network_message \<Rightarrow> byte list" where
  "frame W m =
     (case wire_serialize W m of
        Ok data \<Rightarrow> u32_to_le_bytes (of_nat (length data)) @ data | _ \<Rightarrow> [])"

section \<open>Lemmas\<close>

lemma len_of_nat: "n \<le> MAX_MESSAGE_SIZE \<Longrightarrow> unat (of_nat n :: u32) = n"
  by (simp add: MAX_MESSAGE_SIZE_def unat_of_nat)

lemma receive_frame:
  assumes "wire_ok W" and "sendable W m"
  shows "receive_message W (frame W m @ rest) = (Ok m, rest)"
proof -
  obtain bs where bs: "wire_serialize W m = Ok bs" "length bs \<le> MAX_MESSAGE_SIZE" "wire_deserialize W bs = Ok m"
    using bincode.encodableE [OF assms(1)] assms(2) unfolding sendable_def by blast
  then show ?thesis
    by (simp add: receive_message_def frame_def read_exact_def Let_def len_of_nat)
qed

lemma receive_cut:
  assumes "wire_ok W" and "sendable W m" and "k < length (frame W m)"
  shows "receive_message W (take k (frame W m)) = (Err (Io UnexpectedEof), [])"
proof -
  obtain bs where bs: "wire_serialize W m = Ok bs" "length bs \<le> MAX_MESSAGE_SIZE"
    using bincode.encodableE [OF assms(1)] assms(2) unfolding sendable_def by blast
  have f: "frame W m = u32_to_le_bytes (of_nat (length bs)) @ bs" using bs(1) by (simp add: frame_def)
  show ?thesis
  proof (cases "k < 4")
    case True
    then show ?thesis by (simp add: receive_message_def read_exact_def f)
  next
    case False
    with assms(3) have "k - 4 < length bs" by (simp add: f)
    with False assms(3) bs show ?thesis
      by (simp add: receive_message_def read_exact_def f Let_def len_of_nat)
  qed
qed

lemma peer_reader_frames:
  assumes "wire_ok W" and "\<forall>m \<in> set msgs. sendable W m"
  shows "peer_reader W True p (concat (map (frame W) msgs) @ rest) =
    (case peer_reader W True p rest of (ms, r) \<Rightarrow> (map (Pair p) msgs @ ms, r))"
  using assms(2)
proof (induction msgs)
  case Nil
  then show ?case by simp
next
  case (Cons m msgs)
  then have "receive_message W (frame W m @ concat (map (frame W) msgs) @ rest)
      = (Ok m, concat (map (frame W) msgs) @ rest)"
    using receive_frame [OF assms(1)] by simp
  with Cons show ?case
    by (subst peer_reader.simps) (simp split: prod.splits)
qed

lemma peer_reader_end: "peer_reader W inbox_open p [] = ([], Err (Io UnexpectedEof))"
  by (subst peer_reader.simps) (simp add: receive_message_def read_exact_def)

lemma peer_reader_cut:
  assumes "wire_ok W" and "\<forall>m \<in> set msgs. sendable W m"
  shows "\<exists>j. peer_reader W True p (take k (concat (map (frame W) msgs))) =
    (map (Pair p) (take j msgs), Err (Io UnexpectedEof))"
  using assms(2)
proof (induction msgs arbitrary: k)
  case Nil
  then show ?case by (simp add: peer_reader_end)
next
  case (Cons m msgs)
  show ?case
  proof (cases "k < length (frame W m)")
    case True
    then have "receive_message W (take k (concat (map (frame W) (m # msgs)))) = (Err (Io UnexpectedEof), [])"
      using receive_cut [OF assms(1)] Cons.prems by simp
    then show ?thesis
      by (intro exI [of _ 0]) (subst peer_reader.simps, simp)
  next
    case False
    obtain j where j: "peer_reader W True p (take (k - length (frame W m)) (concat (map (frame W) msgs))) =
        (map (Pair p) (take j msgs), Err (Io UnexpectedEof))"
      using Cons by fastforce
    have "receive_message W (take k (concat (map (frame W) (m # msgs)))) =
        (Ok m, take (k - length (frame W m)) (concat (map (frame W) msgs)))"
      using False receive_frame [OF assms(1)] Cons.prems by simp
    with j show ?thesis
      by (intro exI [of _ "Suc j"]) (subst peer_reader.simps, simp)
  qed
qed

lemma peer_writer_written:
  assumes "\<forall>m \<in> set msgs. sendable W m" and "wr_room w = None"
  shows "wr_written (peer_writer W msgs w) = wr_written w @ concat (map (frame W) msgs)"
  using assms
proof (induction msgs arbitrary: w)
  case Nil
  then show ?case by simp
next
  case (Cons m msgs)
  then obtain bs where "wire_serialize W m = Ok bs"
    by (auto simp: sendable_def bincode.encodable_def)
  with Cons show ?case
    by (simp add: send_message_def write_all_def Let_def frame_def)
qed

section \<open>A concrete wire format\<close>

text \<open>
  A format for the messages of the network layer, at which the hypotheses can be discharged: a tag,
  then the fields; a character of a text is preceded by 1, its end is 0.
\<close>

fun toy_text :: "string \<Rightarrow> byte list" where
  "toy_text [] = [0]"
| "toy_text (c # cs) = 1 # of_char c # toy_text cs"

fun toy_untext :: "byte list \<Rightarrow> string \<times> byte list" where
  "toy_untext (b # c # bs) =
     (if b = 0 then ([], c # bs) else (case toy_untext bs of (cs, rest) \<Rightarrow> (char_of (unat c) # cs, rest)))"
| "toy_untext [b] = ([], [])"
| "toy_untext [] = ([], [])"

lemma toy_untext_text: "toy_untext (toy_text s @ rest) = (s, rest)"
proof (induction s)
  case Nil
  then show ?case by (cases rest) simp_all
next
  case (Cons c s)
  have "unat (of_char c :: byte) = unat (of_nat (of_char c) :: byte)" by (simp only: of_nat_of_char)
  also have "\<dots> = of_char c mod 256" by (simp only: unat_of_nat) simp
  finally have "unat (of_char c :: byte) = of_char c" by simp
  with Cons show ?case by simp
qed

fun toy_pairs :: "(string \<times> string) list \<Rightarrow> byte list" where
  "toy_pairs [] = [0]"
| "toy_pairs ((a, b) # ps) = 1 # toy_text a @ toy_text b @ toy_pairs ps"

fun toy_unpairs :: "nat \<Rightarrow> byte list \<Rightarrow> (string \<times> string) list" where
  "toy_unpairs 0 bs = []"
| "toy_unpairs (Suc k) [] = []"
| "toy_unpairs (Suc k) (b # bs) =
     (if b = 0 then []
      else case toy_untext bs of (x, r) \<Rightarrow> (case toy_untext r of (y, r') \<Rightarrow> (x, y) # toy_unpairs k r'))"

lemma length_toy_pairs: "length ps < length (toy_pairs ps)"
  by (induction ps) auto

lemma toy_unpairs_pairs: "length ps < k \<Longrightarrow> toy_unpairs k (toy_pairs ps) = ps"
proof (induction ps arbitrary: k)
  case Nil
  then show ?case by (cases k) simp_all
next
  case (Cons p ps)
  then show ?case by (cases k; cases p) (simp_all add: toy_untext_text)
qed

definition toy_wire :: wire_lib where
  "toy_wire =
     \<lparr>lib_serialize = (\<lambda>m. case m of
        Ping i t \<Rightarrow> Ok (0 # u64_to_le_bytes t @ toy_text i)
      | Pong i t \<Rightarrow> Ok (1 # u64_to_le_bytes t @ toy_text i)
      | Handshake i p \<Rightarrow> Ok (2 # le_bytes 2 (unat p) @ toy_text i)
      | HandshakeAck i ps \<Rightarrow> Ok (3 # toy_text i @ toy_pairs ps)
      | Consensus _ \<Rightarrow> Err ''unsupported''),
      lib_deserialize = (\<lambda>bs. case bs of
        [] \<Rightarrow> Err ''empty''
      | b # r \<Rightarrow>
          if b = 0 then Ok (Ping (fst (toy_untext (drop 8 r))) (word_of_nat (le_value (take 8 r))))
          else if b = 1 then Ok (Pong (fst (toy_untext (drop 8 r))) (word_of_nat (le_value (take 8 r))))
          else if b = 2 then Ok (Handshake (fst (toy_untext (drop 2 r))) (word_of_nat (le_value (take 2 r))))
          else (case toy_untext r of (i, r') \<Rightarrow> Ok (HandshakeAck i (toy_unpairs (length r') r'))))\<rparr>"

lemma u64_le_value: "word_of_nat (le_value (u64_to_le_bytes t)) = t"
proof -
  have "unat t < 256 ^ 8" using unsigned_less [of t] by simp
  then show ?thesis by (simp add: u64_to_le_bytes_def le_value_le_bytes)
qed

lemma u16_le_value: "word_of_nat (le_value (le_bytes 2 (unat (p :: u16)))) = p"
proof -
  have "unat p < 256 ^ 2" using unsigned_less [of p] by simp
  then show ?thesis by (simp add: le_value_le_bytes)
qed

lemma toy_wire_ok: "wire_ok toy_wire"
  unfolding wire_ok_def
proof (intro allI impI)
  fix m bs
  assume "lib_serialize toy_wire m = Ok bs"
  then show "lib_deserialize toy_wire bs = Ok m"
    using toy_untext_text [of _ "[]"]
    by (cases m) (auto simp: toy_wire_def u64_le_value u16_le_value toy_untext_text
        toy_unpairs_pairs length_toy_pairs)
qed

section \<open>Properties\<close>

text \<open>
  C28. What the writer task puts on an unbroken connection the reader task at the other end takes
  off it, when every message can be serialized within the size limit: exactly the queued messages, in order, each with the sender's identifier. If the
  connection ends after any number of bytes, the reader delivers a prefix of them and nothing else.
\<close>

theorem stream_delivers_messages:
  assumes "wire_ok W" and "\<forall>m \<in> set msgs. sendable W m"
    and "bytes = wr_written (peer_writer W msgs \<lparr>wr_written = [], wr_room = None\<rparr>)"
  shows "peer_reader W True p bytes = (map (Pair p) msgs, Err (Io UnexpectedEof)) \<and>
    (\<exists>j. peer_reader W True p (take k bytes) = (map (Pair p) (take j msgs), Err (Io UnexpectedEof)))"
proof -
  have b: "bytes = concat (map (frame W) msgs)"
    using peer_writer_written [OF assms(2)] assms(3) by simp
  have "peer_reader W True p (concat (map (frame W) msgs) @ []) = (map (Pair p) msgs, Err (Io UnexpectedEof))"
    by (simp only: peer_reader_frames [OF assms(1,2)] peer_reader_end) simp
  with peer_reader_cut [OF assms(1,2), of p k] show ?thesis by (simp add: b)
qed

theorem stream_delivers_messages_witness:
  "\<exists>j. peer_reader toy_wire True ''a''
     (take 20 (wr_written (peer_writer toy_wire [Ping [] 1, Ping [] 2] \<lparr>wr_written = [], wr_room = None\<rparr>)))
     = (map (Pair ''a'') (take j [Ping [] 1, Ping [] 2]), Err (Io UnexpectedEof))"
  using stream_delivers_messages [OF toy_wire_ok _ refl, of "[Ping [] 1, Ping [] 2]" "''a''" 20]
  by (simp add: sendable_def bincode.encodable_def wire_serialize_def toy_wire_def MAX_MESSAGE_SIZE_def)

text \<open>
  C37. The size limit is checked by the reader only: a message whose serialization is longer than
  16 MiB (and shorter than 4 GiB, where the length field would wrap) is sent without an error, and
  the reader that gets it fails, which ends the connection.
\<close>

theorem oversized_message_is_sent:
  assumes "wire_serialize W m = Ok data" and "MAX_MESSAGE_SIZE < length data" and "length data < 2 ^ 32"
  shows "\<exists>w. send_message W m \<lparr>wr_written = [], wr_room = None\<rparr> = (Ok (), w) \<and>
    (\<exists>e. peer_reader W True p (wr_written w) = ([], Err (Io (InvalidData e))))"
proof -
  have "unat (of_nat (length data) :: u32) = length data" using assms(3) by (simp add: unat_of_nat)
  with assms(1,2) show ?thesis
    by (simp add: send_message_def write_all_def Let_def)
      (subst peer_reader.simps, simp add: receive_message_def read_exact_def Let_def)
qed

theorem oversized_message_is_sent_witness:
  "\<exists>w e. send_message \<lparr>lib_serialize = (\<lambda>_. Ok (replicate 16777217 0)), lib_deserialize = (\<lambda>_. Err [])\<rparr>
      (Ping [] 1) \<lparr>wr_written = [], wr_room = None\<rparr> = (Ok (), w) \<and>
     peer_reader \<lparr>lib_serialize = (\<lambda>_. Ok (replicate 16777217 0)), lib_deserialize = (\<lambda>_. Err [])\<rparr> True ''a''
      (wr_written w) = ([], Err (Io (InvalidData e)))"
  using oversized_message_is_sent [where m = "Ping [] 1" and p = "''a''" and data = "replicate 16777217 0" and
      W = "\<lparr>lib_serialize = (\<lambda>_. Ok (replicate 16777217 0)), lib_deserialize = (\<lambda>_. Err [])\<rparr>"]
  by (auto simp: wire_serialize_def MAX_MESSAGE_SIZE_def)

end
