(* ===== verification/Peers.thy ===== *)
theory Peers
  imports Framing Hash_Map
begin

text \<open>
  The peer table of \<open>src/network.rs\<close>: peers and their channels, the handshake of incoming and
  outgoing connections, broadcast and targeted sends. A channel to a peer is a number; its queue
  holds what its writer task has yet to send, and it is closed when that task is gone. A task that
  an operation spawns is a value it returns.
\<close>

section \<open>State\<close>

record peer_info =
  pi_node_id :: node_id
  pi_address :: string
  pi_connected :: bool

record peer_handle =
  ph_info :: peer_info
  ph_sender :: nat

record network =
  nw_node_id :: node_id
  nw_listen_port :: u16
  nw_peers :: "(node_id, peer_handle) hmap"
  nw_receiver :: bool \<comment> \<open>the message receiver has not been taken\<close>
  nw_queues :: "nat \<Rightarrow> network_message list"
  nw_closed :: "nat set"
  nw_next :: nat

datatype task =
    Writer_Task nat writer
  | Reader_Task node_id "byte list"
  | Connect_Task string
  | Accept_Task
  | Incoming_Task "byte list" writer string

definition network_new :: "node_id \<Rightarrow> u16 \<Rightarrow> network" where
  "network_new node_id port =
     \<lparr>nw_node_id = node_id, nw_listen_port = port, nw_peers = hm_new, nw_receiver = True,
      nw_queues = (\<lambda>_. []), nw_closed = {}, nw_next = 0\<rparr>"

definition take_message_receiver :: "network \<Rightarrow> bool \<times> network" where
  "take_message_receiver nw = (nw_receiver nw, nw\<lparr>nw_receiver := False\<rparr>)"

definition get_peers :: "network \<Rightarrow> peer_info list" where
  "get_peers nw = map ph_info (hm_values (nw_peers nw))"

definition peer_count :: "network \<Rightarrow> nat" where
  "peer_count nw = hm_len (nw_peers nw)"

text \<open>The first 16 bytes of an identifier as the log lines print it; \<open>None\<close> is the panic of the slice.\<close>

definition short_id :: "string \<Rightarrow> string option" where
  "short_id s =
     (if length s < 16 \<or> 16 < length s \<and> (128::nat) \<le> of_char (s ! 16) \<and> of_char (s ! 16) < (192::nat)
      then None else Some (take 16 s))"

text \<open>
  A slice that is an argument of \<open>info!\<close> is taken only when the level INFO is enabled: \<open>info\<close> says
  whether it is. \<open>main.rs\<close> enables it; a program that uses the crate as a library may not.
\<close>

definition log_id :: "bool \<Rightarrow> string \<Rightarrow> string option" where
  "log_id info s = (if info then short_id s else Some [])"

lemma log_id_simps [simp]: "log_id True s = short_id s" "log_id False s = Some []"
  by (simp_all add: log_id_def)

lemma log_id_None: "log_id info s = None \<longleftrightarrow> info \<and> short_id s = None"
  by (simp add: log_id_def)

section \<open>Listening\<close>

text \<open>
  \<open>start_listener\<close> fails with the error of \<open>bind\<close> or spawns the accept loop. The loop spawns one task
  per accepted connection and goes on when accepting fails.
\<close>

datatype accepted = Accepted "byte list" writer string | Accept_Failed io_error

definition start_listener :: "io_error option \<Rightarrow> (unit, network_error) res \<times> task list" where
  "start_listener bind =
     (case bind of Some e \<Rightarrow> (Err (Io e), []) | None \<Rightarrow> (Ok (), [Accept_Task]))"

fun accept_loop :: "accepted list \<Rightarrow> task list" where
  "accept_loop [] = []"
| "accept_loop (Accepted incoming w address # as) = Incoming_Task incoming w address # accept_loop as"
| "accept_loop (Accept_Failed _ # as) = accept_loop as"

section \<open>Sending\<close>

definition peer_send :: "peer_handle \<Rightarrow> network_message \<Rightarrow> network \<Rightarrow> (unit, network_error) res \<times> network" where
  "peer_send h msg nw =
     (if ph_sender h \<in> nw_closed nw then (Err ChannelClosed, nw)
      else (Ok (), nw\<lparr>nw_queues := (nw_queues nw)(ph_sender h := nw_queues nw (ph_sender h) @ [msg])\<rparr>))"

definition send_to_peer :: "node_id \<Rightarrow> network_message \<Rightarrow> network \<Rightarrow> (unit, network_error) res \<times> network" where
  "send_to_peer peer_id msg nw =
     (case hm_get (nw_peers nw) peer_id of
        None \<Rightarrow> (Err (PeerNotFound peer_id), nw)
      | Some h \<Rightarrow> peer_send h msg nw)"

fun send_all :: "peer_handle list \<Rightarrow> network_message \<Rightarrow> network \<Rightarrow> network" where
  "send_all [] msg nw = nw"
| "send_all (h # hs) msg nw = send_all hs msg (snd (peer_send h msg nw))"

definition broadcast :: "network_message \<Rightarrow> network \<Rightarrow> network" where
  "broadcast msg nw = send_all (hm_values (nw_peers nw)) msg nw"

section \<open>Connections\<close>

text \<open>
  An outgoing connection of \<open>Network\<close>: \<open>conn\<close> is \<open>None\<close> when TCP does not connect, else what the peer
  sends and the write half. First the handshake.
\<close>

definition handshake_ack ::
  "wire_lib \<Rightarrow> node_id \<Rightarrow> u16 \<Rightarrow> string \<Rightarrow> (byte list \<times> writer) option
     \<Rightarrow> (node_id \<times> (node_id \<times> string) list \<times> byte list \<times> writer, network_error) res" where
  "handshake_ack W node_id port address conn =
     (case conn of
        None \<Rightarrow> Err (ConnectionFailed address)
      | Some (incoming, w) \<Rightarrow>
          (case send_message W (Handshake node_id port) w of
             (Panic, _) \<Rightarrow> Panic
           | (Err e, _) \<Rightarrow> Err e
           | (Ok _, w') \<Rightarrow>
               (case receive_message W incoming of
                  (Panic, _) \<Rightarrow> Panic
                | (Err e, _) \<Rightarrow> Err e
                | (Ok (HandshakeAck peer_id known_peers), rest) \<Rightarrow> Ok (peer_id, known_peers, rest, w')
                | (Ok _, _) \<Rightarrow> Err (ConnectionFailed ''Invalid handshake response''))))"

text \<open>A peer with a channel of its own enters the table, in the place of one with its identifier.\<close>

definition store_peer :: "node_id \<Rightarrow> string \<Rightarrow> network \<Rightarrow> nat \<times> network" where
  "store_peer peer_id address nw =
     (let c = nw_next nw
      in (c, nw\<lparr>nw_peers := hm_insert peer_id
                 \<lparr>ph_info = \<lparr>pi_node_id = peer_id, pi_address = address, pi_connected = True\<rparr>,
                  ph_sender = c\<rparr> (nw_peers nw),
               nw_next := c + 1\<rparr>))"

text \<open>The loop over the discovered peers: the connections it spawns, and whether it panics.\<close>

fun discover :: "bool \<Rightarrow> network \<Rightarrow> (node_id \<times> string) list \<Rightarrow> task list \<times> bool" where
  "discover info nw [] = ([], False)"
| "discover info nw ((peer_id, addr) # known) =
     (if peer_id = nw_node_id nw then discover info nw known
      else if hm_contains_key (nw_peers nw) peer_id then discover info nw known
      else case log_id info peer_id of
        None \<Rightarrow> ([], True)
      | Some _ \<Rightarrow> (case discover info nw known of (tasks, panic) \<Rightarrow> (Connect_Task addr # tasks, panic)))"

definition connect_to_peer ::
  "wire_lib \<Rightarrow> bool \<Rightarrow> string \<Rightarrow> (byte list \<times> writer) option \<Rightarrow> network
     \<Rightarrow> (node_id, network_error) res \<times> network \<times> task list" where
  "connect_to_peer W info address conn nw =
     (case handshake_ack W (nw_node_id nw) (nw_listen_port nw) address conn of
        Panic \<Rightarrow> (Panic, nw, [])
      | Err e \<Rightarrow> (Err e, nw, [])
      | Ok (peer_id, known_peers, rest, write_half) \<Rightarrow>
          (case store_peer peer_id address nw of
             (c, nw1) \<Rightarrow>
               (case log_id info peer_id of
                  None \<Rightarrow> (Panic, nw1\<lparr>nw_closed := insert c (nw_closed nw1)\<rparr>, [])
                | Some _ \<Rightarrow>
                    (case discover info nw1 known_peers of
                       (tasks, panic) \<Rightarrow>
                         (if panic then Panic else Ok peer_id, nw1,
                          [Writer_Task c write_half, Reader_Task peer_id rest] @ tasks)))))"

text \<open>
  The copy of it in \<open>NetworkHandle\<close>, which discovered peers are connected with: it has a handshake
  of its own, prints the whole identifier, and leaves the list of known peers alone.
\<close>

definition handle_handshake ::
  "wire_lib \<Rightarrow> network \<Rightarrow> string \<Rightarrow> (byte list \<times> writer) option
     \<Rightarrow> (node_id \<times> (node_id \<times> string) list \<times> byte list \<times> writer, network_error) res" where
  "handle_handshake W nw address conn =
     (case conn of
        None \<Rightarrow> Err (ConnectionFailed address)
      | Some (read_half, write_half) \<Rightarrow>
          (let handshake = Handshake (nw_node_id nw) (nw_listen_port nw)
           in case send_message W handshake write_half of
                (Panic, _) \<Rightarrow> Panic
              | (Err e, _) \<Rightarrow> Err e
              | (Ok _, write_half') \<Rightarrow>
                  (case receive_message W read_half of
                     (response, rest) \<Rightarrow>
                       (case response of
                          Panic \<Rightarrow> Panic
                        | Err e \<Rightarrow> Err e
                        | Ok msg \<Rightarrow>
                            (case msg of
                               HandshakeAck node_id known_peers \<Rightarrow> Ok (node_id, known_peers, rest, write_half')
                             | _ \<Rightarrow> Err (ConnectionFailed ''Invalid handshake response''))))))"

definition handle_connect_to_peer ::
  "wire_lib \<Rightarrow> string \<Rightarrow> (byte list \<times> writer) option \<Rightarrow> network
     \<Rightarrow> (node_id, network_error) res \<times> network \<times> task list" where
  "handle_connect_to_peer W address conn nw =
     (case handle_handshake W nw address conn of
        Panic \<Rightarrow> (Panic, nw, [])
      | Err e \<Rightarrow> (Err e, nw, [])
      | Ok (peer_id, _, rest, write_half) \<Rightarrow>
          (let tx = nw_next nw;
               peer_handle = \<lparr>ph_info = \<lparr>pi_node_id = peer_id, pi_address = address, pi_connected = True\<rparr>,
                 ph_sender = tx\<rparr>;
               nw1 = nw\<lparr>nw_peers := hm_insert peer_id peer_handle (nw_peers nw), nw_next := tx + 1\<rparr>
           in (Ok peer_id, nw1, [Writer_Task tx write_half, Reader_Task peer_id rest])))"

text \<open>
  An incoming connection, up to the point where its task starts to read. The address under which
  the peer is stored is the text before the first colon of the remote address, with the announced
  port.
\<close>

definition peer_address :: "string \<Rightarrow> u16 \<Rightarrow> string" where
  "peer_address address port = takeWhile (\<lambda>c. c \<noteq> CHR '':'') address @ '':'' @ show_nat (unat port)"

definition handle_incoming_connection ::
  "wire_lib \<Rightarrow> bool \<Rightarrow> byte list \<Rightarrow> writer \<Rightarrow> string \<Rightarrow> network
     \<Rightarrow> (unit, network_error) res \<times> network \<times> task list \<times> writer" where
  "handle_incoming_connection W info incoming w address nw =
     (case receive_message W incoming of
        (Panic, _) \<Rightarrow> (Panic, nw, [], w)
      | (Err e, _) \<Rightarrow> (Err e, nw, [], w)
      | (Ok (Handshake peer_id peer_port), rest) \<Rightarrow>
          (let known_peers = map (\<lambda>p. (pi_node_id p, pi_address p)) (get_peers nw)
           in case send_message W (HandshakeAck (nw_node_id nw) known_peers) w of
                (Panic, w') \<Rightarrow> (Panic, nw, [], w')
              | (Err e, w') \<Rightarrow> (Err e, nw, [], w')
              | (Ok _, w') \<Rightarrow>
                  (let tx = nw_next nw;
                       peer_handle = \<lparr>ph_info = \<lparr>pi_node_id = peer_id,
                         pi_address = peer_address address peer_port, pi_connected = True\<rparr>, ph_sender = tx\<rparr>;
                       nw1 = nw\<lparr>nw_peers := hm_insert peer_id peer_handle (nw_peers nw), nw_next := tx + 1\<rparr>
                   in case log_id info peer_id of
                        None \<Rightarrow> (Panic, nw1\<lparr>nw_closed := insert tx (nw_closed nw1)\<rparr>, [], w')
                      | Some _ \<Rightarrow> (Ok (), nw1, [Writer_Task tx w', Reader_Task peer_id rest], w')))
      | (Ok _, _) \<Rightarrow> (Err (ConnectionFailed ''Expected handshake''), nw, [], w))"

text \<open>The copies of the handshake, and of storing a peer, come to the same.\<close>

lemma handle_handshake_eq:
  "handle_handshake W nw address conn = handshake_ack W (nw_node_id nw) (nw_listen_port nw) address conn"
  by (auto simp: handle_handshake_def handshake_ack_def Let_def split: option.splits prod.splits res.splits
      network_message.splits)

lemma handle_connect_eq:
  "handle_connect_to_peer W address conn nw =
     (case handshake_ack W (nw_node_id nw) (nw_listen_port nw) address conn of
        Panic \<Rightarrow> (Panic, nw, [])
      | Err e \<Rightarrow> (Err e, nw, [])
      | Ok (peer_id, _, rest, write_half) \<Rightarrow>
          (case store_peer peer_id address nw of
             (c, nw1) \<Rightarrow> (Ok peer_id, nw1, [Writer_Task c write_half, Reader_Task peer_id rest])))"
  by (simp add: handle_connect_to_peer_def handle_handshake_eq store_peer_def Let_def
      split: res.split prod.split)

lemma handle_incoming_eq:
  "handle_incoming_connection W info incoming w address nw =
     (case receive_message W incoming of
        (Panic, _) \<Rightarrow> (Panic, nw, [], w)
      | (Err e, _) \<Rightarrow> (Err e, nw, [], w)
      | (Ok (Handshake peer_id peer_port), rest) \<Rightarrow>
          (case send_message W (HandshakeAck (nw_node_id nw)
              (map (\<lambda>p. (pi_node_id p, pi_address p)) (get_peers nw))) w of
             (Panic, w') \<Rightarrow> (Panic, nw, [], w')
           | (Err e, w') \<Rightarrow> (Err e, nw, [], w')
           | (Ok _, w') \<Rightarrow>
               (case store_peer peer_id (peer_address address peer_port) nw of
                  (c, nw1) \<Rightarrow>
                    (case log_id info peer_id of
                       None \<Rightarrow> (Panic, nw1\<lparr>nw_closed := insert c (nw_closed nw1)\<rparr>, [], w')
                     | Some _ \<Rightarrow> (Ok (), nw1, [Writer_Task c w', Reader_Task peer_id rest], w'))))
      | (Ok _, _) \<Rightarrow> (Err (ConnectionFailed ''Expected handshake''), nw, [], w))"
  by (simp add: handle_incoming_connection_def store_peer_def Let_def
      split: res.split prod.split network_message.split option.split)

text \<open>
  What a reader task does when its connection has ended. (The slice in its log line cannot fail: with
  INFO enabled the same slice was taken before the task was spawned, and the tasks of
  \<open>NetworkHandle\<close> have none.)
\<close>

definition reader_ended :: "node_id \<Rightarrow> network \<Rightarrow> network" where
  "reader_ended peer_id nw = nw\<lparr>nw_peers := hm_remove peer_id (nw_peers nw)\<rparr>"

section \<open>Well-formed tables\<close>

definition network_wf :: "network \<Rightarrow> bool" where
  "network_wf nw \<longleftrightarrow>
     (\<forall>i h. hm_get (nw_peers nw) i = Some h \<longrightarrow> pi_node_id (ph_info h) = i \<and>
        pi_connected (ph_info h) \<and> ph_sender h < nw_next nw) \<and>
     (\<forall>i j h k. hm_get (nw_peers nw) i = Some h \<longrightarrow> hm_get (nw_peers nw) j = Some k \<longrightarrow>
        ph_sender h = ph_sender k \<longrightarrow> i = j)"

lemma network_wf_new: "network_wf (network_new i p)"
  by (simp add: network_wf_def network_new_def)

lemma network_wf_store:
  assumes "network_wf nw" and "store_peer i a nw = (c, nw')"
  shows "network_wf nw'"
proof -
  have nw': "nw' = nw\<lparr>nw_peers := hm_insert i
      \<lparr>ph_info = \<lparr>pi_node_id = i, pi_address = a, pi_connected = True\<rparr>, ph_sender = nw_next nw\<rparr> (nw_peers nw),
      nw_next := nw_next nw + 1\<rparr>"
    using assms(2) by (auto simp: store_peer_def Let_def)
  have old: "pi_node_id (ph_info h) = j \<and> pi_connected (ph_info h) \<and> ph_sender h < nw_next nw" if "hm_get (nw_peers nw) j = Some h" for j h
    using assms(1) that by (simp add: network_wf_def)
  have inj: "j = k" if "hm_get (nw_peers nw) j = Some g" "hm_get (nw_peers nw) k = Some h" "ph_sender g = ph_sender h"
    for j k g h
    using assms(1) that unfolding network_wf_def by blast
  show ?thesis
    unfolding network_wf_def nw'
    using old inj by (auto split: if_splits dest: less_SucI) (metis less_irrefl)+
qed

lemma network_wf_frame:
  "network_wf nw \<Longrightarrow> nw_peers nw' = nw_peers nw \<Longrightarrow> nw_next nw' = nw_next nw \<Longrightarrow> network_wf nw'"
  by (simp add: network_wf_def)

lemma network_wf_ended: "network_wf nw \<Longrightarrow> network_wf (reader_ended i nw)"
  unfolding network_wf_def reader_ended_def by simp

lemma peer_send_frame:
  "peer_send h msg nw = (r, nw') \<Longrightarrow> nw_peers nw' = nw_peers nw \<and> nw_next nw' = nw_next nw \<and>
     nw_closed nw' = nw_closed nw \<and> nw_node_id nw' = nw_node_id nw \<and>
     nw_queues nw' = (if ph_sender h \<in> nw_closed nw then nw_queues nw
        else (nw_queues nw)(ph_sender h := nw_queues nw (ph_sender h) @ [msg]))"
  by (auto simp: peer_send_def split: if_splits)

lemma send_all_frame:
  "nw_peers (send_all hs msg nw) = nw_peers nw" "nw_next (send_all hs msg nw) = nw_next nw"
  "nw_closed (send_all hs msg nw) = nw_closed nw" "nw_node_id (send_all hs msg nw) = nw_node_id nw"
  by (induction hs arbitrary: nw)
    (auto simp: peer_send_frame [OF surjective_pairing])

lemma send_all_queues:
  assumes "distinct (map ph_sender hs)"
  shows "nw_queues (send_all hs msg nw) c =
    (if c \<in> ph_sender ` set hs \<and> c \<notin> nw_closed nw then nw_queues nw c @ [msg] else nw_queues nw c)"
  using assms
proof (induction hs arbitrary: nw)
  case Nil
  then show ?case by simp
next
  case (Cons h hs)
  note f = peer_send_frame [OF surjective_pairing, of h msg nw]
  show ?case
    using Cons f by auto
qed

lemma hm_values_distinct:
  assumes "\<And>i j a b. hm_get m i = Some a \<Longrightarrow> hm_get m j = Some b \<Longrightarrow> f a = f b \<Longrightarrow> i = j"
  shows "distinct (map f (hm_values m))"
proof -
  have get: "hm_get m k = Some v" if "(k, v) \<in> set (DAList.impl_of m)" for k v
    using that by (simp add: hm_get_def DAList.lookup.rep_eq map_of_is_SomeI)
  have "distinct (DAList.impl_of m)" using DAList.impl_of [of m] by (auto simp: distinct_map)
  moreover have "inj_on (f \<circ> snd) (set (DAList.impl_of m))"
  proof (rule inj_onI)
    fix x y
    assume a: "x \<in> set (DAList.impl_of m)" "y \<in> set (DAList.impl_of m)" "(f \<circ> snd) x = (f \<circ> snd) y"
    then have x: "hm_get m (fst x) = Some (snd x)" "hm_get m (fst y) = Some (snd y)"
      using get [of "fst x" "snd x"] get [of "fst y" "snd y"] by simp_all
    with a(3) have "fst x = fst y" using assms by simp
    with x have "snd x = snd y" by simp
    with \<open>fst x = fst y\<close> show "x = y" by (rule prod_eqI)
  qed
  ultimately have "distinct (map (f \<circ> snd) (DAList.impl_of m))" by (simp add: distinct_map)
  then show ?thesis by (simp add: hm_values_def comp_def)
qed

section \<open>Reachable networks\<close>

inductive network_reach :: "wire_lib \<Rightarrow> node_id \<Rightarrow> u16 \<Rightarrow> network \<Rightarrow> bool" for W node_id port where
  net_new: "network_reach W node_id port (network_new node_id port)"
| net_take: "network_reach W node_id port nw \<Longrightarrow>
    network_reach W node_id port (snd (take_message_receiver nw))"
| net_connect: "network_reach W node_id port nw \<Longrightarrow>
    connect_to_peer W info address conn nw = (r, nw', tasks) \<Longrightarrow>
    network_reach W node_id port nw'"
| net_discovered: "network_reach W node_id port nw \<Longrightarrow>
    handle_connect_to_peer W address conn nw = (r, nw', tasks) \<Longrightarrow> network_reach W node_id port nw'"
| net_incoming: "network_reach W node_id port nw \<Longrightarrow>
    handle_incoming_connection W info incoming w address nw = (r, nw', tasks, w') \<Longrightarrow>
    network_reach W node_id port nw'"
| net_ended: "network_reach W node_id port nw \<Longrightarrow> network_reach W node_id port (reader_ended peer_id nw)"
| net_send: "network_reach W node_id port nw \<Longrightarrow> send_to_peer peer_id msg nw = (r, nw') \<Longrightarrow>
    network_reach W node_id port nw'"
| net_broadcast: "network_reach W node_id port nw \<Longrightarrow> network_reach W node_id port (broadcast msg nw)"
| net_writer_done: "network_reach W node_id port nw \<Longrightarrow>
    network_reach W node_id port (nw\<lparr>nw_closed := insert c (nw_closed nw)\<rparr>)"
| net_writer_sent: "network_reach W node_id port nw \<Longrightarrow> nw_queues nw c = msg # q \<Longrightarrow>
    network_reach W node_id port (nw\<lparr>nw_queues := (nw_queues nw)(c := q)\<rparr>)"

lemma connect_cases:
  assumes "connect_to_peer W info address conn nw = (r, nw', tasks)
    \<or> handle_connect_to_peer W address conn nw = (r, nw', tasks)"
  obtains "nw' = nw"
  | i c nw1 where "store_peer i address nw = (c, nw1)" "nw_peers nw' = nw_peers nw1" "nw_next nw' = nw_next nw1"
  using assms
  by (auto simp: connect_to_peer_def handle_connect_eq
      split: res.splits prod.splits option.splits)

lemma incoming_cases:
  assumes "handle_incoming_connection W info incoming w address nw = (r, nw', tasks, w')"
  obtains "nw' = nw"
  | i a c nw1 where "store_peer i a nw = (c, nw1)" "nw_peers nw' = nw_peers nw1" "nw_next nw' = nw_next nw1"
  using assms
  by (auto simp: handle_incoming_eq
      split: res.splits prod.splits option.splits network_message.splits)

lemma network_reach_wf: "network_reach W i p nw \<Longrightarrow> network_wf nw"
proof (induction rule: network_reach.induct)
  case net_new
  then show ?case by (rule network_wf_new)
next
  case (net_take nw)
  then show ?case by (auto simp: take_message_receiver_def intro: network_wf_frame)
next
  case (net_connect nw info address conn r nw' tasks)
  from net_connect.hyps(2) have "connect_to_peer W info address conn nw = (r, nw', tasks)
    \<or> handle_connect_to_peer W address conn nw = (r, nw', tasks)" by simp
  then show ?case
    by (cases rule: connect_cases)
      (use net_connect.IH in \<open>auto intro: network_wf_frame [OF network_wf_store]\<close>)
next
  case (net_discovered nw address conn r nw' tasks)
  from net_discovered.hyps(2) have "connect_to_peer W info address conn nw = (r, nw', tasks)
    \<or> handle_connect_to_peer W address conn nw = (r, nw', tasks)" by simp
  then show ?case
    by (cases rule: connect_cases)
      (use net_discovered.IH in \<open>auto intro: network_wf_frame [OF network_wf_store]\<close>)
next
  case (net_incoming nw info incoming w address r nw' tasks w')
  from net_incoming.hyps(2) show ?case
    by (cases rule: incoming_cases)
      (use net_incoming.IH in \<open>auto intro: network_wf_frame [OF network_wf_store]\<close>)
next
  case (net_ended nw peer_id)
  then show ?case by (simp add: network_wf_ended)
next
  case (net_send nw peer_id msg r nw')
  then show ?case
    by (auto simp: send_to_peer_def split: option.splits dest!: peer_send_frame intro: network_wf_frame)
next
  case (net_broadcast nw msg)
  then show ?case by (auto simp: broadcast_def send_all_frame intro: network_wf_frame)
qed (auto intro: network_wf_frame)

section \<open>Accepting a handshake\<close>

lemma send_on_open:
  assumes "wire_serialize W m = Ok data" and "wr_room w = None"
  shows "\<exists>w'. send_message W m w = (Ok (), w') \<and> wr_written w' = wr_written w @ frame W m \<and> wr_room w' = None"
  using assms by (simp add: send_message_def write_all_def Let_def frame_def)

lemma incoming_accepts:
  assumes "wire_ok W" and "sendable W (Handshake p port)" and "wr_room w = None"
    and "wire_serialize W (HandshakeAck (nw_node_id nw)
        (map (\<lambda>p. (pi_node_id p, pi_address p)) (get_peers nw))) = Ok ack"
  shows "\<exists>r nw' tasks w'. handle_incoming_connection W info (frame W (Handshake p port) @ rest) w address nw =
      (r, nw', tasks, w') \<and>
    wr_written w' = wr_written w @ frame W (HandshakeAck (nw_node_id nw)
        (map (\<lambda>p. (pi_node_id p, pi_address p)) (get_peers nw))) \<and>
    nw_peers nw' = hm_insert p
      \<lparr>ph_info = \<lparr>pi_node_id = p, pi_address = peer_address address port, pi_connected = True\<rparr>,
       ph_sender = nw_next nw\<rparr> (nw_peers nw) \<and>
    (if info \<and> short_id p = None
     then r = Panic \<and> tasks = [] \<and> nw_closed nw' = insert (nw_next nw) (nw_closed nw)
     else r = Ok () \<and> tasks = [Writer_Task (nw_next nw) w', Reader_Task p rest] \<and> nw_closed nw' = nw_closed nw)"
proof -
  obtain w' where "send_message W (HandshakeAck (nw_node_id nw)
        (map (\<lambda>p. (pi_node_id p, pi_address p)) (get_peers nw))) w = (Ok (), w')"
    "wr_written w' = wr_written w @ frame W (HandshakeAck (nw_node_id nw)
        (map (\<lambda>p. (pi_node_id p, pi_address p)) (get_peers nw)))"
    using send_on_open [OF assms(4,3)] by blast
  then show ?thesis
    by (cases "log_id info p")
      (auto simp: handle_incoming_eq receive_frame [OF assms(1,2)] store_peer_def Let_def log_id_def
        split: if_splits)
qed

lemma discover_panics:
  "snd (discover info nw known) \<longleftrightarrow>
     info \<and> (\<exists>(i, a) \<in> set known. i \<noteq> nw_node_id nw \<and> hm_get (nw_peers nw) i = None \<and> short_id i = None)"
  by (induction known) (auto simp: hm_contains_key_def log_id_def split: option.splits prod.splits)

text \<open>A peer at a fresh node, over the toy wire format.\<close>

definition toy_peer :: node_id where
  "toy_peer = ''0123456789abcdef''"

lemma toy_peer_short: "short_id toy_peer = Some toy_peer"
  by (simp add: short_id_def toy_peer_def)

lemma toy_handshake_sendable: "sendable toy_wire (Handshake toy_peer 8001)"
  by (simp add: sendable_def bincode.encodable_def wire_serialize_def toy_wire_def MAX_MESSAGE_SIZE_def toy_peer_def)

lemma toy_ack: "wire_serialize toy_wire (HandshakeAck i ps) = Ok (3 # toy_text i @ toy_pairs ps)"
  by (simp add: wire_serialize_def toy_wire_def)

lemma toy_accepts:
  "\<exists>nw' w'. handle_incoming_connection toy_wire True (frame toy_wire (Handshake toy_peer 8001))
      \<lparr>wr_written = [], wr_room = None\<rparr> ''10.0.0.7:5555'' (network_new ''n'' 8000) =
      (Ok (), nw', [Writer_Task 0 w', Reader_Task toy_peer []], w') \<and>
    nw_peers nw' = hm_insert toy_peer
      \<lparr>ph_info = \<lparr>pi_node_id = toy_peer, pi_address = peer_address ''10.0.0.7:5555'' 8001, pi_connected = True\<rparr>,
       ph_sender = 0\<rparr> hm_new \<and> nw_closed nw' = {}"
  using incoming_accepts [OF toy_wire_ok toy_handshake_sendable _ toy_ack, where info = True and
        w = "\<lparr>wr_written = [], wr_room = None\<rparr>" and nw = "network_new ''n'' 8000" and rest = "[]" and
        address = "''10.0.0.7:5555''"]
  by (auto simp: network_new_def toy_peer_short)

text \<open>The network that this leaves, for the witnesses.\<close>

lemma toy_network:
  obtains nw where "network_reach toy_wire ''n'' 8000 nw"
    "nw_peers nw = hm_insert toy_peer
      \<lparr>ph_info = \<lparr>pi_node_id = toy_peer, pi_address = peer_address ''10.0.0.7:5555'' 8001, pi_connected = True\<rparr>,
       ph_sender = 0\<rparr> hm_new" "nw_closed nw = {}"
  using toy_accepts net_incoming [OF net_new] by blast

section \<open>Properties\<close>

text \<open>
  C31. In every network that the operations can produce, a broadcast puts the message once, at the
  end, into the queue of every connected peer whose writer is running, and touches no other queue;
  the table is unchanged.
\<close>

theorem broadcast_reaches_each_peer_once:
  assumes "network_reach W node_id port nw"
  shows "nw_peers (broadcast msg nw) = nw_peers nw \<and>
    nw_queues (broadcast msg nw) c =
      (if (\<exists>i h. hm_get (nw_peers nw) i = Some h \<and> ph_sender h = c) \<and> c \<notin> nw_closed nw
       then nw_queues nw c @ [msg] else nw_queues nw c)"
proof -
  have wf: "network_wf nw" by (rule network_reach_wf [OF assms])
  have "distinct (map ph_sender (hm_values (nw_peers nw)))"
    using wf unfolding network_wf_def by (intro hm_values_distinct) blast
  from send_all_queues [OF this] show ?thesis
    by (auto simp: broadcast_def send_all_frame set_hm_values)
qed

theorem broadcast_reaches_each_peer_once_witness:
  "\<exists>nw c. network_reach toy_wire ''n'' 8000 nw \<and> nw_queues (broadcast (Ping [] 1) nw) c = nw_queues nw c @ [Ping [] 1]"
proof -
  obtain nw where nw: "network_reach toy_wire ''n'' 8000 nw"
    "nw_peers nw = hm_insert toy_peer
      \<lparr>ph_info = \<lparr>pi_node_id = toy_peer, pi_address = peer_address ''10.0.0.7:5555'' 8001, pi_connected = True\<rparr>,
       ph_sender = 0\<rparr> hm_new" "nw_closed nw = {}"
    by (rule toy_network)
  with broadcast_reaches_each_peer_once [OF nw(1), of "Ping [] 1" 0] show ?thesis
    by (auto split: if_splits)
qed

text \<open>
  C32. A handshake of an incoming connection takes whatever identifier it names, without any proof of
  owning it: the acknowledgement lists the known peers, the identifier maps to the new connection, in
  the place of an earlier one, and every other peer stays. The connection then runs, unless INFO is
  enabled and the identifier cannot be cut to 16 bytes for the log: then its task panics, and leaves
  in the table an entry with a closed channel.
\<close>

theorem handshake_takes_identifier:
  assumes "wire_ok W" and "sendable W (Handshake p port)" and "wr_room w = None"
    and "wire_serialize W (HandshakeAck (nw_node_id nw)
        (map (\<lambda>p. (pi_node_id p, pi_address p)) (get_peers nw))) = Ok ack"
  shows "\<exists>r nw' tasks w'. handle_incoming_connection W info (frame W (Handshake p port) @ rest) w address nw =
      (r, nw', tasks, w') \<and>
    hm_get (nw_peers nw') p = Some \<lparr>ph_info = \<lparr>pi_node_id = p, pi_address = peer_address address port,
       pi_connected = True\<rparr>, ph_sender = nw_next nw\<rparr> \<and>
    (\<forall>j. j \<noteq> p \<longrightarrow> hm_get (nw_peers nw') j = hm_get (nw_peers nw) j) \<and>
    peer_count nw' = (if hm_get (nw_peers nw) p = None then Suc (peer_count nw) else peer_count nw) \<and>
    wr_written w' = wr_written w @ frame W (HandshakeAck (nw_node_id nw)
        (map (\<lambda>p. (pi_node_id p, pi_address p)) (get_peers nw))) \<and>
    (if info \<and> short_id p = None
     then r = Panic \<and> tasks = [] \<and> nw_closed nw' = insert (nw_next nw) (nw_closed nw)
     else r = Ok () \<and> tasks = [Writer_Task (nw_next nw) w', Reader_Task p rest] \<and> nw_closed nw' = nw_closed nw)"
proof -
  obtain r nw' tasks w' where "handle_incoming_connection W info (frame W (Handshake p port) @ rest) w address nw =
      (r, nw', tasks, w')"
    and "nw_peers nw' = hm_insert p
      \<lparr>ph_info = \<lparr>pi_node_id = p, pi_address = peer_address address port, pi_connected = True\<rparr>,
       ph_sender = nw_next nw\<rparr> (nw_peers nw)"
    and "wr_written w' = wr_written w @ frame W (HandshakeAck (nw_node_id nw)
        (map (\<lambda>p. (pi_node_id p, pi_address p)) (get_peers nw)))"
    and "if info \<and> short_id p = None
     then r = Panic \<and> tasks = [] \<and> nw_closed nw' = insert (nw_next nw) (nw_closed nw)
     else r = Ok () \<and> tasks = [Writer_Task (nw_next nw) w', Reader_Task p rest] \<and> nw_closed nw' = nw_closed nw"
    using incoming_accepts [OF assms, of info rest address] by blast
  then show ?thesis by (simp add: peer_count_def)
qed

theorem handshake_takes_identifier_witness:
  "\<exists>r nw' tasks w'. handle_incoming_connection toy_wire True (frame toy_wire (Handshake toy_peer 8001) @ [])
      \<lparr>wr_written = [], wr_room = None\<rparr> ''10.0.0.7:5555'' (network_new ''n'' 8000) = (r, nw', tasks, w') \<and>
    r = Ok () \<and> peer_count nw' = 1"
  using handshake_takes_identifier [OF toy_wire_ok toy_handshake_sendable _ toy_ack, where info = True and
        w = "\<lparr>wr_written = [], wr_room = None\<rparr>" and nw = "network_new ''n'' 8000" and rest = "[]" and
        address = "''10.0.0.7:5555''"]
  by (auto simp: network_new_def peer_count_def toy_peer_short)

text \<open>
  C33. When INFO is disabled, connecting to a peer does not panic. When it is enabled, as in
  \<open>main.rs\<close>, it panics exactly when, after a successful handshake, the identifier that the peer
  announces, or one of the identifiers it lists that are new here, cannot be cut to its first 16 bytes
  for the log: a peer can bring down the task that connects to it with a short identifier. (The
  handshake itself would panic only if the serializer did.)
\<close>

theorem connect_panics_iff:
  "fst (connect_to_peer W info address conn nw) = Panic \<longleftrightarrow>
     handshake_ack W (nw_node_id nw) (nw_listen_port nw) address conn = Panic \<or>
     info \<and> (\<exists>p known rest w.
        handshake_ack W (nw_node_id nw) (nw_listen_port nw) address conn = Ok (p, known, rest, w) \<and>
        (short_id p = None \<or>
         (\<exists>(i, a) \<in> set known. i \<noteq> nw_node_id nw \<and> i \<noteq> p \<and> hm_get (nw_peers nw) i = None \<and>
            short_id i = None)))"
proof (cases "handshake_ack W (nw_node_id nw) (nw_listen_port nw) address conn")
  case (Ok x)
  obtain p known rest w where x: "x = (p, known, rest, w)" by (cases x)
  obtain c nw1 where st: "store_peer p address nw = (c, nw1)" by fastforce
  then have nw1: "nw_node_id nw1 = nw_node_id nw"
    "hm_get (nw_peers nw1) i = None \<longleftrightarrow> i \<noteq> p \<and> hm_get (nw_peers nw) i = None" for i
    by (auto simp: store_peer_def Let_def split: if_splits)
  have "fst (connect_to_peer W info address conn nw) = Panic \<longleftrightarrow>
      info \<and> short_id p = None \<or> snd (discover info nw1 known)"
    using Ok x st by (auto simp: connect_to_peer_def log_id_def split: option.splits prod.splits)
  then show ?thesis
    using Ok x by (auto simp: discover_panics nw1)
qed (simp_all add: connect_to_peer_def)

end
