(* ===== verification/Mesh.thy ===== *)
theory Mesh
  imports Peers
begin

text \<open>
  How a node joins a network: it connects to one peer, and then to the peers that this one knows.
  The tasks that connecting spawns are run here one after the other, which is one of the orders in
  which the runtime may run them.
\<close>

section \<open>Running the connections\<close>

fun task_weight :: "task \<Rightarrow> nat" where
  "task_weight (Connect_Task _) = 3"
| "task_weight _ = 1"

lemma handle_connect_tasks:
  assumes "handle_connect_to_peer W a conn nw = (r, nw', ts)"
  shows "ts = [] \<or> (\<exists>c w p rest. ts = [Writer_Task c w, Reader_Task p rest])"
  using assms by (auto simp: handle_connect_eq split: res.splits prod.splits)

text \<open>Readers, writers and listeners run on; they do not connect.\<close>

function run_connects ::
  "wire_lib \<Rightarrow> (string \<Rightarrow> (byte list \<times> writer) option) \<Rightarrow> task list \<Rightarrow> network \<Rightarrow> network" where
  "run_connects W conns [] nw = nw"
| "run_connects W conns (Connect_Task a # ts) nw =
     (case handle_connect_to_peer W a (conns a) nw of
        (_, nw', ts') \<Rightarrow> run_connects W conns (ts @ ts') nw')"
| "run_connects W conns (Writer_Task c w # ts) nw = run_connects W conns ts nw"
| "run_connects W conns (Reader_Task p bs # ts) nw = run_connects W conns ts nw"
| "run_connects W conns (Accept_Task # ts) nw = run_connects W conns ts nw"
| "run_connects W conns (Incoming_Task bs w a # ts) nw = run_connects W conns ts nw"
  by pat_completeness auto

termination
  by (relation "measure (\<lambda>(W, conns, ts, nw). sum_list (map task_weight ts))")
    (auto dest!: handle_connect_tasks [OF sym])

definition join_network ::
  "wire_lib \<Rightarrow> bool \<Rightarrow> (string \<Rightarrow> (byte list \<times> writer) option) \<Rightarrow> string \<Rightarrow> network
     \<Rightarrow> (node_id, network_error) res \<times> network" where
  "join_network W info conns address nw =
     (case connect_to_peer W info address (conns address) nw of
        (r, nw', ts) \<Rightarrow> (r, run_connects W conns ts nw'))"

section \<open>Peers that are reached\<close>

text \<open>The peer that answers a handshake at an address, for a node with this identifier and port.\<close>

definition answers ::
  "wire_lib \<Rightarrow> network \<Rightarrow> (string \<Rightarrow> (byte list \<times> writer) option) \<Rightarrow> string \<Rightarrow> node_id \<Rightarrow> bool" where
  "answers W nw conns a i \<longleftrightarrow>
     (\<exists>known rest w. handshake_ack W (nw_node_id nw) (nw_listen_port nw) a (conns a) = Ok (i, known, rest, w))"

lemma store_peer_keys:
  assumes "store_peer i a nw = (c, nw')"
  shows "hm_keys (nw_peers nw') = insert i (hm_keys (nw_peers nw))" "nw_node_id nw' = nw_node_id nw"
    "nw_listen_port nw' = nw_listen_port nw"
  using assms by (auto simp: store_peer_def Let_def hm_keys_insert)

lemma handle_connect_keys:
  assumes "handle_connect_to_peer W a (conns a) nw = (r, nw', ts)"
  shows "hm_keys (nw_peers nw') = hm_keys (nw_peers nw) \<union> {i. answers W nw conns a i}"
    and "nw_node_id nw' = nw_node_id nw" "nw_listen_port nw' = nw_listen_port nw"
  using assms store_peer_keys
  by (auto simp: handle_connect_eq answers_def split: res.splits prod.splits)

lemma answers_frame:
  "nw_node_id nw' = nw_node_id nw \<Longrightarrow> nw_listen_port nw' = nw_listen_port nw \<Longrightarrow>
     answers W nw' conns a i = answers W nw conns a i"
  by (simp add: answers_def)

lemma run_connects_keys:
  "hm_keys (nw_peers (run_connects W conns ts nw)) =
     hm_keys (nw_peers nw) \<union> {i. \<exists>a. Connect_Task a \<in> set ts \<and> answers W nw conns a i}"
proof (induction W conns ts nw rule: run_connects.induct)
  case (2 W conns a ts nw)
  obtain r nw' ts' where h: "handle_connect_to_peer W a (conns a) nw = (r, nw', ts')" using prod_cases3 by blast
  note keys = handle_connect_keys [where conns = conns and a = a, OF h]
  have no: "Connect_Task b \<notin> set ts'" for b using handle_connect_tasks [OF h] by auto
  show ?case
    using 2 [OF h [symmetric] refl] h no keys(1) by (auto simp: answers_frame [OF keys(2,3)])
qed auto

lemma discover_tasks:
  assumes "discover info nw known = (ts, False)"
  shows "Connect_Task a \<in> set ts \<longleftrightarrow>
    (\<exists>i. (i, a) \<in> set known \<and> i \<noteq> nw_node_id nw \<and> i \<notin> hm_keys (nw_peers nw))"
  using assms
proof (induction known arbitrary: ts)
  case (Cons x known)
  obtain i b where "x = (i, b)" by fastforce
  with Cons show ?case
    by (auto simp: hm_contains_key_def hm_keys_def split: if_splits option.splits prod.splits)
qed simp

lemma connect_eq:
  assumes "handshake_ack W (nw_node_id nw) (nw_listen_port nw) a conn = Ok (p, known, rest, w)"
    and "fst (connect_to_peer W info a conn nw) \<noteq> Panic" and "store_peer p a nw = (c, nw1)"
  shows "\<exists>extra. discover info nw1 known = (extra, False) \<and>
    connect_to_peer W info a conn nw = (Ok p, nw1, [Writer_Task c w, Reader_Task p rest] @ extra)"
  using assms by (auto simp: connect_to_peer_def split: option.splits prod.splits)

lemma discover_only_connects: "discover info nw known = (ts, b) \<Longrightarrow> t \<in> set ts \<Longrightarrow> \<exists>a. t = Connect_Task a"
  by (induction known arbitrary: ts b) (auto split: if_splits option.splits prod.splits)

lemma join_keys:
  assumes "handshake_ack W (nw_node_id nw) (nw_listen_port nw) address (conns address) = Ok (p, known, rest, w)"
    and "fst (connect_to_peer W info address (conns address) nw) \<noteq> Panic"
  shows "\<exists>nw'. join_network W info conns address nw = (Ok p, nw') \<and>
    hm_keys (nw_peers nw') = insert p (hm_keys (nw_peers nw)) \<union>
      {i. \<exists>j a. (j, a) \<in> set known \<and> j \<noteq> nw_node_id nw \<and> j \<notin> insert p (hm_keys (nw_peers nw)) \<and>
         answers W nw conns a i}"
proof -
  obtain c nw1 where st: "store_peer p address nw = (c, nw1)" by fastforce
  note keys = store_peer_keys [OF st]
  obtain extra where d: "discover info nw1 known = (extra, False)"
    and c: "connect_to_peer W info address (conns address) nw = (Ok p, nw1, [Writer_Task c w, Reader_Task p rest] @ extra)"
    using connect_eq [OF assms st] by blast
  have "hm_keys (nw_peers (run_connects W conns extra nw1)) = hm_keys (nw_peers nw1) \<union>
      {i. \<exists>j a. (j, a) \<in> set known \<and> j \<noteq> nw_node_id nw1 \<and> j \<notin> hm_keys (nw_peers nw1) \<and> answers W nw1 conns a i}"
    unfolding run_connects_keys discover_tasks [OF d] by blast
  then show ?thesis
    using c by (simp add: join_network_def answers_frame [OF keys(2,3)] keys)
qed

section \<open>Properties\<close>

text \<open>
  C38. Joining through one peer reaches every peer it knows: when each listed peer answers at its
  address under its identifier, the node ends connected to the first peer, to all that the first
  peer listed (itself excepted), and to whom it was connected before. The recursion over the spawned
  connections ends because a discovered peer's own list is not followed.
\<close>

theorem joining_reaches_known_peers:
  assumes "handshake_ack W (nw_node_id nw) (nw_listen_port nw) address (conns address) = Ok (p, known, rest, w)"
    and "fst (connect_to_peer W info address (conns address) nw) \<noteq> Panic"
    and "\<And>j a i. (j, a) \<in> set known \<Longrightarrow> j \<noteq> nw_node_id nw \<Longrightarrow> answers W nw conns a i \<longleftrightarrow> i = j"
  shows "\<exists>nw'. join_network W info conns address nw = (Ok p, nw') \<and>
    hm_keys (nw_peers nw') =
      hm_keys (nw_peers nw) \<union> {p} \<union> (fst ` set known - {nw_node_id nw})"
proof -
  let ?K = "insert p (hm_keys (nw_peers nw))"
  have new: "{i. \<exists>j a. (j, a) \<in> set known \<and> j \<noteq> nw_node_id nw \<and> j \<notin> ?K \<and> answers W nw conns a i} =
      (fst ` set known - {nw_node_id nw}) - ?K"
  proof (intro set_eqI)
    fix i
    show "i \<in> {i. \<exists>j a. (j, a) \<in> set known \<and> j \<noteq> nw_node_id nw \<and> j \<notin> ?K \<and> answers W nw conns a i} \<longleftrightarrow>
        i \<in> fst ` set known - {nw_node_id nw} - ?K"
      (is "?l \<longleftrightarrow> ?r")
    proof
      assume ?l
      then obtain j a where j: "(j, a) \<in> set known" "j \<noteq> nw_node_id nw" "j \<notin> ?K" "answers W nw conns a i"
        by blast
      then have "i = j" using assms(3) by blast
      with j show ?r by force
    next
      assume ?r
      then obtain a where "(i, a) \<in> set known" "i \<noteq> nw_node_id nw" "i \<notin> ?K" by force
      with assms(3) show ?l by blast
    qed
  qed
  have "?K \<union> ((fst ` set known - {nw_node_id nw}) - ?K) =
      hm_keys (nw_peers nw) \<union> {p} \<union> (fst ` set known - {nw_node_id nw})"
    by blast
  with join_keys [where conns = conns and address = address, OF assms(1,2)] show ?thesis unfolding new by simp
qed

text \<open>
  C39. The two copies of \<open>connect_to_peer\<close>, of \<open>Network\<close> and of \<open>NetworkHandle\<close>, agree whatever the
  connection does: the same result, the same table and the same tasks, but that \<open>Network\<close>'s goes on to
  connect to the discovered peers. Only \<open>Network\<close>'s takes slices of identifiers for its log lines: where
  it panics on one, with INFO enabled and after a successful handshake, the other returns the peer, and
  both leave the same peers in the table.
\<close>

theorem connect_copies_agree:
  "\<exists>r nw' ts extra. handle_connect_to_peer W address conn nw = (r, nw', ts) \<and>
    (connect_to_peer W info address conn nw = (r, nw', ts @ map Connect_Task extra) \<or>
     info \<and> fst (connect_to_peer W info address conn nw) = Panic \<and>
       nw_peers (fst (snd (connect_to_peer W info address conn nw))) = nw_peers nw' \<and>
       (\<exists>p known rest w. r = Ok p \<and>
          handshake_ack W (nw_node_id nw) (nw_listen_port nw) address conn = Ok (p, known, rest, w)))"
proof (cases "handshake_ack W (nw_node_id nw) (nw_listen_port nw) address conn")
  case (Ok x)
  obtain p known rest w where x: "x = (p, known, rest, w)" by (cases x)
  obtain c nw1 where st: "store_peer p address nw = (c, nw1)" by fastforce
  have h: "handle_connect_to_peer W address conn nw = (Ok p, nw1, [Writer_Task c w, Reader_Task p rest])"
    using Ok x st by (simp add: handle_connect_eq)
  show ?thesis
  proof (cases "fst (connect_to_peer W info address conn nw) = Panic")
    case True
    then have "info"
      using Ok x st discover_panics [of info nw1 known]
      by (auto simp: connect_to_peer_def log_id_def split: if_splits option.splits prod.splits)
    moreover have "nw_peers (fst (snd (connect_to_peer W info address conn nw))) = nw_peers nw1"
      using Ok x st by (simp add: connect_to_peer_def split: option.split prod.split)
    ultimately show ?thesis using True Ok x h by blast
  next
    case False
    obtain extra where d: "discover info nw1 known = (extra, False)"
      and c: "connect_to_peer W info address conn nw = (Ok p, nw1, [Writer_Task c w, Reader_Task p rest] @ extra)"
      using connect_eq [OF Ok [unfolded x] False st] by blast
    have "\<forall>t\<in>set extra. \<exists>a. t = Connect_Task a" using discover_only_connects [OF d] by blast
    then obtain addrs where "extra = map Connect_Task addrs" by (metis ex_map_conv)
    with c h show ?thesis by blast
  qed
next
  case (Err e)
  then show ?thesis
    by (intro exI [of _ "Err e"] exI [of _ nw] exI [of _ "[]"])
      (simp add: connect_to_peer_def handle_connect_eq)
next
  case Panic
  then show ?thesis
    by (intro exI [of _ "Panic"] exI [of _ nw] exI [of _ "[]"])
      (simp add: connect_to_peer_def handle_connect_eq)
qed

text \<open>
  C40. The peer table is well typed in every network that the operations can produce: each entry is
  stored under its own identifier and marked connected, no two entries share a channel, and
  \<open>get_peers\<close> lists every identifier once, \<open>peer_count\<close> of them.
\<close>

theorem peer_table_well_typed:
  assumes "network_reach W node_id port nw"
  shows "(\<forall>i h. hm_get (nw_peers nw) i = Some h \<longrightarrow> pi_node_id (ph_info h) = i) \<and>
    (\<forall>p\<in>set (get_peers nw). pi_connected p) \<and> distinct (map pi_node_id (get_peers nw)) \<and>
    set (map pi_node_id (get_peers nw)) = hm_keys (nw_peers nw) \<and>
    length (get_peers nw) = peer_count nw \<and> distinct (map ph_sender (hm_values (nw_peers nw)))"
proof -
  have wf: "network_wf nw" by (rule network_reach_wf [OF assms])
  then have own: "pi_node_id (ph_info h) = i \<and> pi_connected (ph_info h)" if "hm_get (nw_peers nw) i = Some h" for i h
    using that by (simp add: network_wf_def)
  have "distinct (map (pi_node_id \<circ> ph_info) (hm_values (nw_peers nw)))"
    by (rule hm_values_distinct) (use own in fastforce)
  moreover have "distinct (map ph_sender (hm_values (nw_peers nw)))"
    using wf unfolding network_wf_def by (intro hm_values_distinct) blast
  moreover have "set (map (pi_node_id \<circ> ph_info) (hm_values (nw_peers nw))) = hm_keys (nw_peers nw)"
    using own by (force simp: set_hm_values hm_keys_def)
  ultimately show ?thesis
    using own by (simp add: get_peers_def set_hm_values peer_count_def length_hm_values) blast
qed

section \<open>Witnesses\<close>

text \<open>Over the toy format, a peer that knows a second one; both answer.\<close>

lemma handshake_open:
  assumes "wire_ok W" and "sendable W (HandshakeAck p known)" and "wire_serialize W (Handshake i port) = Ok bs"
    and "wr_room w = None"
  shows "handshake_ack W i port a (Some (frame W (HandshakeAck p known) @ rest, w)) =
    Ok (p, known, rest, snd (send_message W (Handshake i port) w))"
proof -
  obtain w' where "send_message W (Handshake i port) w = (Ok (), w')" using send_on_open [OF assms(3,4)] by blast
  then show ?thesis by (simp add: handshake_ack_def receive_frame [OF assms(1,2)])
qed

definition toy_second :: node_id where
  "toy_second = ''fedcba9876543210''"

definition toy_conns :: "string \<Rightarrow> (byte list \<times> writer) option" where
  "toy_conns a =
     Some (frame toy_wire (if a = ''b:1'' then HandshakeAck toy_second [] else HandshakeAck toy_peer [(toy_second, ''b:1'')]),
       \<lparr>wr_written = [], wr_room = None\<rparr>)"

definition toy_sent :: "node_id \<Rightarrow> u16 \<Rightarrow> writer" where
  "toy_sent i port = snd (send_message toy_wire (Handshake i port) \<lparr>wr_written = [], wr_room = None\<rparr>)"

lemma toy_handshakes:
  "handshake_ack toy_wire i port ''a:1'' (toy_conns ''a:1'') =
     Ok (toy_peer, [(toy_second, ''b:1'')], [], toy_sent i port)"
  "handshake_ack toy_wire i port ''b:1'' (toy_conns ''b:1'') = Ok (toy_second, [], [], toy_sent i port)"
  unfolding toy_sent_def
  by (auto simp: toy_conns_def sendable_def bincode.encodable_def wire_serialize_def toy_wire_def
      MAX_MESSAGE_SIZE_def toy_peer_def toy_second_def
      intro!: handshake_open [OF toy_wire_ok, where rest = "[]", simplified])

lemma toy_connects:
  "fst (connect_to_peer toy_wire True ''a:1'' (toy_conns ''a:1'') (network_new ''n'' 8000)) \<noteq> Panic"
  by (simp add: connect_to_peer_def toy_handshakes store_peer_def network_new_def toy_peer_short Let_def
      hm_contains_key_def short_id_def toy_second_def toy_peer_def split: option.splits)

theorem joining_reaches_known_peers_witness:
  "\<exists>nw'. join_network toy_wire True toy_conns ''a:1'' (network_new ''n'' 8000) = (Ok toy_peer, nw') \<and>
    hm_keys (nw_peers nw') = {toy_peer, toy_second}"
proof -
  let ?nw = "network_new ''n'' 8000"
  have a: "handshake_ack toy_wire (nw_node_id ?nw) (nw_listen_port ?nw) ''a:1'' (toy_conns ''a:1'') =
      Ok (toy_peer, [(toy_second, ''b:1'')], [], toy_sent (nw_node_id ?nw) (nw_listen_port ?nw))"
    by (rule toy_handshakes(1))
  have b: "answers toy_wire ?nw toy_conns x i \<longleftrightarrow> i = j" if "(j, x) \<in> set [(toy_second, ''b:1'')]" for j x i
    using that by (auto simp: answers_def toy_handshakes(2))
  have "toy_second \<noteq> nw_node_id ?nw" by (simp add: toy_second_def network_new_def)
  moreover have "hm_keys (nw_peers ?nw) = {}" by (simp add: network_new_def hm_keys_def)
  ultimately show ?thesis
    using joining_reaches_known_peers [where conns = toy_conns and address = "''a:1''", OF a toy_connects b] by auto
qed

theorem peer_table_well_typed_witness:
  "\<exists>nw. network_reach toy_wire ''n'' 8000 nw \<and> map pi_node_id (get_peers nw) = [toy_peer]"
proof -
  obtain nw where reach: "network_reach toy_wire ''n'' 8000 nw"
    and peers: "nw_peers nw = hm_insert toy_peer
      \<lparr>ph_info = \<lparr>pi_node_id = toy_peer, pi_address = peer_address ''10.0.0.7:5555'' 8001, pi_connected = True\<rparr>,
       ph_sender = 0\<rparr> hm_new" "nw_closed nw = {}"
    by (rule toy_network)
  note typed = peer_table_well_typed [OF reach]
  have "length (get_peers nw) = 1" using typed by (simp add: peer_count_def peers)
  moreover have "set (map pi_node_id (get_peers nw)) = {toy_peer}"
    using typed by (simp add: peers hm_keys_insert)
  ultimately have "map pi_node_id (get_peers nw) = [toy_peer]"
    by (cases "get_peers nw") auto
  with reach show ?thesis by (intro exI [of _ nw] conjI)
qed

end
