(* ===== verification/Node_Runtime.thy ===== *)
theory Node_Runtime
  imports Engine Peers
begin

text \<open>
  \<open>src/node.rs\<close> and the message loop of \<open>src/main.rs\<close>: a node owns a network and, until it is
  started, a consensus engine. Once it runs, the loop feeds the messages that the network receives
  to the engine; what the engine sends goes through a channel to the task that hands it to the
  peers, what it delivers goes through another one.
\<close>

section \<open>Nodes\<close>

record ('sk, 'vk) node =
  nd_node_id :: node_id
  nd_network :: network
  nd_consensus :: "('sk, 'vk) pbft_state option"
  nd_outgoing :: "outgoing_message list"
  nd_committed :: "request list"

definition node_new ::
  "('sk, 'vk) crypto_lib \<Rightarrow> instant \<Rightarrow> byte list \<Rightarrow> u16 \<Rightarrow> byte list option \<Rightarrow> ('sk, 'vk) node" where
  "node_new L now entropy listen_port seed =
     (let kp = (case seed of Some s \<Rightarrow> keypair_from_seed L s | None \<Rightarrow> keypair_generate L entropy);
          node_id = public_key_hex L kp
      in \<lparr>nd_node_id = node_id, nd_network = network_new node_id listen_port,
          nd_consensus = Some (pbft_state_new now node_id kp [node_id] (pbft_config_new 1)),
          nd_outgoing = [], nd_committed = []\<rparr>)"

definition initialize_consensus ::
  "instant \<Rightarrow> node_id list \<Rightarrow> ('sk, 'vk) keypair \<Rightarrow> ('sk, 'vk) node \<Rightarrow> ('sk, 'vk) node" where
  "initialize_consensus now replicas kp nd =
     nd\<lparr>nd_consensus := Some (pbft_state_new now (nd_node_id nd) kp replicas
          (pbft_config_new (of_nat (length replicas)))),
        nd_outgoing := [], nd_committed := []\<rparr>"

text \<open>What a handler of the engine leaves behind goes into the two channels.\<close>

fun outgoing_of :: "effect list \<Rightarrow> outgoing_message list" where
  "outgoing_of [] = []"
| "outgoing_of (Out m # es) = m # outgoing_of es"
| "outgoing_of (Committed_Request _ # es) = outgoing_of es"

fun committed_of :: "effect list \<Rightarrow> request list" where
  "committed_of [] = []"
| "committed_of (Out _ # es) = committed_of es"
| "committed_of (Committed_Request req # es) = req # committed_of es"

definition engine_outcome ::
  "('sk, 'vk) handler_outcome \<Rightarrow> ('sk, 'vk) node \<Rightarrow> (unit, pbft_error) res \<times> ('sk, 'vk) node" where
  "engine_outcome out nd =
     (case out of (r, s', es) \<Rightarrow>
        (r, nd\<lparr>nd_consensus := Some s', nd_outgoing := nd_outgoing nd @ outgoing_of es,
             nd_committed := nd_committed nd @ committed_of es\<rparr>))"

definition submit_request ::
  "('sk, 'vk) crypto_lib \<Rightarrow> instant \<Rightarrow> int \<Rightarrow> byte list \<Rightarrow> ('sk, 'vk) node
     \<Rightarrow> (unit, pbft_error) res \<times> ('sk, 'vk) node" where
  "submit_request L now clock operation nd =
     (case request_new clock (nd_node_id nd) operation of
        Ok req \<Rightarrow>
          (case nd_consensus nd of
             Some s \<Rightarrow> engine_outcome (handle_request L now req s) nd
           | None \<Rightarrow> (Ok (), nd))
      | _ \<Rightarrow> (Panic, nd))"

text \<open>
  \<open>Node::start\<close> opens the listener, takes the receiver of the network and the engine out of the
  node (\<open>Panic\<close> is that of one of its \<open>expect\<close>s), and runs its loop with them: the engine then
  belongs to the loop. The result holds the engine, the node that is left and the accept task.
\<close>

definition node_start ::
  "io_error option \<Rightarrow> ('sk, 'vk) node
     \<Rightarrow> (('sk, 'vk) pbft_state \<times> task list, network_error) res \<times> ('sk, 'vk) node" where
  "node_start bind nd =
     (case start_listener bind of
        (Panic, _) \<Rightarrow> (Panic, nd)
      | (Err e, _) \<Rightarrow> (Err e, nd)
      | (Ok _, tasks) \<Rightarrow>
          (case take_message_receiver (nd_network nd) of
             (False, _) \<Rightarrow> (Panic, nd)
           | (True, nw) \<Rightarrow>
               (case nd_consensus nd of
                  None \<Rightarrow> (Panic, nd\<lparr>nd_network := nw\<rparr>)
                | Some s \<Rightarrow> (Ok (s, tasks), nd\<lparr>nd_network := nw, nd_consensus := None\<rparr>))))"

text \<open>
  The timer of \<open>Node::start\<close>: whether it logs that the primary has timed out (\<open>None\<close> is the panic
  of \<open>is_primary\<close>). It does nothing else.
\<close>

definition timeout_warning :: "instant \<Rightarrow> ('sk, 'vk) pbft_state \<Rightarrow> bool option" where
  "timeout_warning now s =
     map_option (\<lambda>p. \<not> p \<and> cf_view_change_timeout (st_config s) < now - st_last_primary_activity s)
       (is_primary s)"

section \<open>The builder\<close>

record node_builder =
  nb_listen_port :: u16
  nb_seed :: "byte list option"
  nb_bootstrap_peers :: "string list"

definition builder_new :: "u16 \<Rightarrow> node_builder" where
  "builder_new port = \<lparr>nb_listen_port = port, nb_seed = None, nb_bootstrap_peers = []\<rparr>"

definition with_seed :: "byte list \<Rightarrow> node_builder \<Rightarrow> node_builder" where
  "with_seed seed b = b\<lparr>nb_seed := Some seed\<rparr>"

definition with_bootstrap_peer :: "string \<Rightarrow> node_builder \<Rightarrow> node_builder" where
  "with_bootstrap_peer address b = b\<lparr>nb_bootstrap_peers := nb_bootstrap_peers b @ [address]\<rparr>"

definition with_bootstrap_peers :: "string list \<Rightarrow> node_builder \<Rightarrow> node_builder" where
  "with_bootstrap_peers addresses b = b\<lparr>nb_bootstrap_peers := nb_bootstrap_peers b @ addresses\<rparr>"

definition node_connect ::
  "wire_lib \<Rightarrow> bool \<Rightarrow> string \<Rightarrow> (byte list \<times> writer) option \<Rightarrow> ('sk, 'vk) node
     \<Rightarrow> (node_id, network_error) res \<times> ('sk, 'vk) node \<times> task list" where
  "node_connect W info address conn nd =
     (case connect_to_peer W info address conn (nd_network nd) of
        (r, nw, tasks) \<Rightarrow> (r, nd\<lparr>nd_network := nw\<rparr>, tasks))"

definition build :: "('sk, 'vk) crypto_lib \<Rightarrow> instant \<Rightarrow> byte list \<Rightarrow> node_builder \<Rightarrow> ('sk, 'vk) node" where
  "build L now entropy b = node_new L now entropy (nb_listen_port b) (nb_seed b)"

text \<open>
  \<open>conns\<close> gives what happens to the connection to each address, \<open>info\<close> whether INFO is enabled. \<open>None\<close>
  is a panic of a connection.
\<close>

fun connect_all ::
  "wire_lib \<Rightarrow> bool \<Rightarrow> (string \<Rightarrow> (byte list \<times> writer) option) \<Rightarrow> string list \<Rightarrow> network \<times> task list
     \<Rightarrow> (network \<times> task list) option" where
  "connect_all W info conns [] (nw, ts) = Some (nw, ts)"
| "connect_all W info conns (a # as) (nw, ts) =
     (case connect_to_peer W info a (conns a) nw of
        (Panic, _, _) \<Rightarrow> None
      | (_, nw', ts') \<Rightarrow> connect_all W info conns as (nw', ts @ ts'))"

definition build_and_connect ::
  "('sk, 'vk) crypto_lib \<Rightarrow> wire_lib \<Rightarrow> bool \<Rightarrow> (string \<Rightarrow> (byte list \<times> writer) option) \<Rightarrow> instant \<Rightarrow> byte list
     \<Rightarrow> node_builder \<Rightarrow> (('sk, 'vk) node \<times> task list) option" where
  "build_and_connect L W info conns now entropy b =
     (let nd = node_new L now entropy (nb_listen_port b) (nb_seed b)
      in map_option (\<lambda>(nw, ts). (nd\<lparr>nd_network := nw\<rparr>, ts))
           (connect_all W info conns (nb_bootstrap_peers b) (nd_network nd, [])))"

section \<open>Sending tasks\<close>

definition dispatch_outgoing :: "outgoing_message \<Rightarrow> network \<Rightarrow> network" where
  "dispatch_outgoing out nw =
     (case out of
        Broadcast msg \<Rightarrow> send_all (hm_values (nw_peers nw)) msg nw
      | SendTo target msg \<Rightarrow>
          (case hm_get (nw_peers nw) target of
             Some h \<Rightarrow> snd (peer_send h msg nw)
           | None \<Rightarrow> nw))"

section \<open>The message loops\<close>

text \<open>A running node: the loop of \<open>Node::start\<close> (lines 154-177).\<close>

record ('sk, 'vk) running =
  rn_node_id :: node_id
  rn_network :: network
  rn_state :: "('sk, 'vk) pbft_state"
  rn_outgoing :: "outgoing_message list"
  rn_committed :: "request list"

definition run_engine ::
  "('sk, 'vk) handler_outcome \<Rightarrow> ('sk, 'vk) running \<Rightarrow> bool \<times> ('sk, 'vk) running" where
  "run_engine out rn =
     (case out of (r, s', es) \<Rightarrow>
        (r \<noteq> Panic, rn\<lparr>rn_state := s', rn_outgoing := rn_outgoing rn @ outgoing_of es,
           rn_committed := rn_committed rn @ committed_of es\<rparr>))"

definition node_receive ::
  "('sk, 'vk) crypto_lib \<Rightarrow> instant \<Rightarrow> node_id \<Rightarrow> network_message \<Rightarrow> ('sk, 'vk) running
     \<Rightarrow> bool \<times> ('sk, 'vk) running" where
  "node_receive L now peer_id msg rn =
     (case msg of
        Consensus cm \<Rightarrow> run_engine (process_message L now cm (rn_state rn)) rn
      | Ping node_id timestamp \<Rightarrow>
          (True, rn\<lparr>rn_network := snd (send_to_peer node_id (Pong (rn_node_id rn) timestamp) (rn_network rn))\<rparr>)
      | Pong _ _ \<Rightarrow> (True, rn)
      | Handshake _ _ \<Rightarrow> (True, rn)
      | HandshakeAck _ _ \<Rightarrow> (True, rn))"

fun node_loop ::
  "('sk, 'vk) crypto_lib \<Rightarrow> (instant \<times> node_id \<times> network_message) list \<Rightarrow> ('sk, 'vk) running
     \<Rightarrow> bool \<times> ('sk, 'vk) running" where
  "node_loop L [] rn = (True, rn)"
| "node_loop L ((now, peer_id, msg) # ms) rn =
     (case node_receive L now peer_id msg rn of
        (False, rn') \<Rightarrow> (False, rn')
      | (True, rn') \<Rightarrow> node_loop L ms rn')"

text \<open>
  The loop of \<open>main.rs\<close> (lines 342-389): it cuts the peer's identifier for the log (INFO is enabled) before it
  processes a consensus message, and it answers a ping to the peer that sent it.
\<close>

definition main_receive ::
  "('sk, 'vk) crypto_lib \<Rightarrow> instant \<Rightarrow> node_id \<Rightarrow> network_message \<Rightarrow> ('sk, 'vk) running
     \<Rightarrow> bool \<times> ('sk, 'vk) running" where
  "main_receive L now peer_id msg rn =
     (case msg of
        Consensus cm \<Rightarrow>
          (case short_id peer_id of
             None \<Rightarrow> (False, rn)
           | Some _ \<Rightarrow> run_engine (process_message L now cm (rn_state rn)) rn)
      | Ping _ timestamp \<Rightarrow>
          (True, rn\<lparr>rn_network := snd (send_to_peer peer_id (Pong (rn_node_id rn) timestamp) (rn_network rn))\<rparr>)
      | _ \<Rightarrow> (True, rn))"

definition main_request ::
  "('sk, 'vk) crypto_lib \<Rightarrow> instant \<Rightarrow> request \<Rightarrow> ('sk, 'vk) running \<Rightarrow> bool \<times> ('sk, 'vk) running" where
  "main_request L now req rn = run_engine (handle_request L now req (rn_state rn)) rn"

text \<open>One turn of the sending task.\<close>

definition dispatch_next :: "('sk, 'vk) running \<Rightarrow> ('sk, 'vk) running" where
  "dispatch_next rn =
     (case rn_outgoing rn of
        [] \<Rightarrow> rn
      | out # outs \<Rightarrow> rn\<lparr>rn_network := dispatch_outgoing out (rn_network rn), rn_outgoing := outs\<rparr>)"

text \<open>
  What can happen to the program of \<open>main.rs\<close>: a line of the user becomes a request, the network
  hands over a message of a peer, the sending task takes its next message. The loop goes on until a
  handler panics.
\<close>

datatype loop_event =
    User_Request instant request
  | Network_Message instant node_id network_message
  | Send_Turn

definition main_turn ::
  "('sk, 'vk) crypto_lib \<Rightarrow> loop_event \<Rightarrow> ('sk, 'vk) running \<Rightarrow> bool \<times> ('sk, 'vk) running" where
  "main_turn L ev rn =
     (case ev of
        User_Request now req \<Rightarrow> main_request L now req rn
      | Network_Message now peer_id msg \<Rightarrow> main_receive L now peer_id msg rn
      | Send_Turn \<Rightarrow> (True, dispatch_next rn))"

fun main_loop ::
  "('sk, 'vk) crypto_lib \<Rightarrow> loop_event list \<Rightarrow> ('sk, 'vk) running \<Rightarrow> bool \<times> ('sk, 'vk) running" where
  "main_loop L [] rn = (True, rn)"
| "main_loop L (ev # evs) rn =
     (case main_turn L ev rn of
        (False, rn') \<Rightarrow> (False, rn')
      | (True, rn') \<Rightarrow> main_loop L evs rn')"

end
