(* ===== verification/Command_Line.thy ===== *)
theory Command_Line
  imports Node_Runtime "HOL-Library.List_Lexorder" "HOL-Library.Char_ord"
begin

text \<open>
  The program \<open>src/main.rs\<close>: the key pair and the replica list from the command-line options, the
  start of a node, the commands that the user types, and \<open>keygen\<close>. Parsing of the options (the
  \<open>clap\<close> crate) and the text that is printed are left out; a slice that a line of output takes is
  kept, because it can panic.
\<close>

section \<open>Key pairs and replicas\<close>

datatype cli_error = Bad_Hex | Bad_Seed_Length | Network_Failed network_error

definition decode_seed :: "('sk, 'vk) crypto_lib \<Rightarrow> string \<Rightarrow> (byte list, cli_error) res" where
  "decode_seed L seed_hex =
     (case lib_hex_decode L seed_hex of
        None \<Rightarrow> Err Bad_Hex
      | Some bytes \<Rightarrow> if length bytes = 32 then Ok bytes else Err Bad_Seed_Length)"

text \<open>The seed of a node index: 32 zero bytes, the first replaced by \<open>idx as u8\<close>.\<close>

definition index_seed :: "usize \<Rightarrow> byte list" where
  "index_seed idx = (replicate 32 0)[0 := ucast idx]"

definition cli_keypair ::
  "('sk, 'vk) crypto_lib \<Rightarrow> byte list \<Rightarrow> string option \<Rightarrow> usize option
     \<Rightarrow> (('sk, 'vk) keypair, cli_error) res" where
  "cli_keypair L entropy seed index =
     (case seed of
        Some seed_hex \<Rightarrow>
          (case decode_seed L seed_hex of
             Ok bytes \<Rightarrow> Ok (keypair_from_seed L bytes)
           | Err e \<Rightarrow> Err e
           | Panic \<Rightarrow> Panic)
      | None \<Rightarrow>
          (case index of
             Some idx \<Rightarrow> Ok (keypair_from_seed L (index_seed idx))
           | None \<Rightarrow> Ok (keypair_generate L entropy)))"

text \<open>
  With an index, the replicas are those of all indices, sorted as byte strings; \<open>None\<close> is the panic
  of the slice in the line that lists them.
\<close>

definition cli_replicas ::
  "('sk, 'vk) crypto_lib \<Rightarrow> usize \<Rightarrow> usize option \<Rightarrow> node_id \<Rightarrow> node_id list option" where
  "cli_replicas L num_nodes index node_id =
     (case index of
        Some _ \<Rightarrow>
          (let replicas = sort (map (\<lambda>i. public_key_hex L (keypair_from_seed L (index_seed (of_nat i))))
                 [0..<unat num_nodes])
           in if list_all (\<lambda>r. short_id r \<noteq> None) replicas then Some replicas else None)
      | None \<Rightarrow> Some [node_id])"

definition keygen :: "('sk, 'vk) crypto_lib \<Rightarrow> byte list \<Rightarrow> string option \<Rightarrow> (string, cli_error) res" where
  "keygen L entropy seed =
     (case (case seed of
              Some seed_hex \<Rightarrow>
                (case decode_seed L seed_hex of
                   Ok bytes \<Rightarrow> Ok (keypair_from_seed L bytes)
                 | Err e \<Rightarrow> Err e
                 | Panic \<Rightarrow> Panic)
            | None \<Rightarrow> Ok (keypair_generate L entropy)) of
        Ok kp \<Rightarrow> Ok (public_key_hex L kp)
      | Err e \<Rightarrow> Err e
      | Panic \<Rightarrow> Panic)"

section \<open>Starting a node\<close>

text \<open>
  \<open>start_node\<close> up to its loop: the key pair, the network, the listener (\<open>bind\<close> is the error of
  \<open>TcpListener::bind\<close>, if there is one), the connections to the bootstrap peers (\<open>conns\<close> gives what
  happens to each), the replicas, the engine, the receiver of the network.
\<close>

definition start_node ::
  "('sk, 'vk) crypto_lib \<Rightarrow> wire_lib \<Rightarrow> io_error option \<Rightarrow> (string \<Rightarrow> (byte list \<times> writer) option)
     \<Rightarrow> instant \<Rightarrow> byte list \<Rightarrow> u16 \<Rightarrow> string option \<Rightarrow> string list \<Rightarrow> usize \<Rightarrow> usize option
     \<Rightarrow> (('sk, 'vk) running \<times> task list, cli_error) res" where
  "start_node L W bind conns now entropy port seed bootstrap num_nodes index =
     (case cli_keypair L entropy seed index of
        Panic \<Rightarrow> Panic
      | Err e \<Rightarrow> Err e
      | Ok kp \<Rightarrow>
          (let node_id = public_key_hex L kp
           in case start_listener bind of
                (Panic, _) \<Rightarrow> Panic
              | (Err e, _) \<Rightarrow> Err (Network_Failed e)
              | (Ok _, listening) \<Rightarrow>
                  (case connect_all W True conns bootstrap (network_new node_id port, listening) of
                     None \<Rightarrow> Panic
                   | Some (nw, tasks) \<Rightarrow>
                       (case cli_replicas L num_nodes index node_id of
                          None \<Rightarrow> Panic
                        | Some replicas \<Rightarrow>
                            (let config = pbft_config_new num_nodes;
                                 state = pbft_state_new now node_id kp replicas config
                             in case take_message_receiver nw of
                                  (False, _) \<Rightarrow> Panic
                                | (True, nw') \<Rightarrow>
                                    Ok (\<lparr>rn_node_id = node_id, rn_network = nw', rn_state = state,
                                         rn_outgoing = [], rn_committed = []\<rparr>, tasks))))))"

text \<open>
  The status task prints this every five seconds: view, sequence number, whether this node is the
  primary, connected and expected peers, and whether all are connected. \<open>None\<close> is its panic.
\<close>

definition status_report ::
  "('sk, 'vk) pbft_state \<Rightarrow> network \<Rightarrow> (view_number \<times> sequence_number \<times> bool \<times> nat \<times> nat \<times> bool) option" where
  "status_report s nw =
     (case is_primary s of
        None \<Rightarrow> None
      | Some b \<Rightarrow>
          (let connected = peer_count nw; expected = length (st_replicas s) - 1
           in Some (st_view s, st_sequence s, b, connected, expected, expected \<le> connected)))"

text \<open>
  What \<open>main\<close> does with the options that \<open>clap\<close> has parsed: the loop of a started node, or the public
  key that \<open>keygen\<close> prints.
\<close>

datatype cli_command =
    Start u16 "string option" "string list" usize "usize option"
  | Keygen "string option"

datatype ('sk, 'vk) cli_result = Started "('sk, 'vk) running" "task list" | Key_Printed string

definition run_program ::
  "('sk, 'vk) crypto_lib \<Rightarrow> wire_lib \<Rightarrow> io_error option \<Rightarrow> (string \<Rightarrow> (byte list \<times> writer) option)
     \<Rightarrow> instant \<Rightarrow> byte list \<Rightarrow> cli_command \<Rightarrow> (('sk, 'vk) cli_result, cli_error) res" where
  "run_program L W bind conns now entropy cmd =
     (case cmd of
        Start port seed bootstrap num_nodes index \<Rightarrow>
          (case start_node L W bind conns now entropy port seed bootstrap num_nodes index of
             Ok (rn, tasks) \<Rightarrow> Ok (Started rn tasks)
           | Err e \<Rightarrow> Err e
           | Panic \<Rightarrow> Panic)
      | Keygen seed \<Rightarrow>
          (case keygen L entropy seed of
             Ok pk \<Rightarrow> Ok (Key_Printed pk)
           | Err e \<Rightarrow> Err e
           | Panic \<Rightarrow> Panic))"

section \<open>The commands of the user\<close>

text \<open>
  A \<open>String\<close> is its UTF-8 bytes. \<open>trim\<close> removes the characters with the Unicode property White_Space
  from both ends: each is one of these byte sequences.
\<close>

definition white_space :: "string list" where
  "white_space = map (\<lambda>c. [c]) [CHR 0x09, CHR 0x0A, CHR 0x0B, CHR 0x0C, CHR 0x0D, CHR 0x20] @
     [[CHR 0xC2, CHR 0x85], [CHR 0xC2, CHR 0xA0], [CHR 0xE1, CHR 0x9A, CHR 0x80]] @
     map (\<lambda>c. [CHR 0xE2, CHR 0x80, c])
       [CHR 0x80, CHR 0x81, CHR 0x82, CHR 0x83, CHR 0x84, CHR 0x85, CHR 0x86, CHR 0x87, CHR 0x88,
        CHR 0x89, CHR 0x8A, CHR 0xA8, CHR 0xA9, CHR 0xAF] @
     [[CHR 0xE2, CHR 0x81, CHR 0x9F], [CHR 0xE3, CHR 0x80, CHR 0x80]]"

definition front_of :: "string list \<Rightarrow> string \<Rightarrow> string option" where
  "front_of cs s = find (\<lambda>c. c \<noteq> [] \<and> take (length c) s = c) cs"

function strip_front :: "string list \<Rightarrow> string \<Rightarrow> string" where
  "strip_front cs s =
     (case front_of cs s of
        None \<Rightarrow> s
      | Some c \<Rightarrow> strip_front cs (drop (length c) s))"
  by pat_completeness auto

termination
proof (relation "measure (\<lambda>(cs, s). length s)")
  fix cs :: "string list" and s c :: string
  assume "front_of cs s = Some c"
  then have "c \<noteq> [] \<and> take (length c) s = c" by (auto simp: front_of_def find_Some_iff)
  then have "s \<noteq> []" "0 < length c" by auto
  then show "((cs, drop (length c) s), cs, s) \<in> measure (\<lambda>(cs, s). length s)" by simp
qed simp

declare strip_front.simps [simp del]

definition trim_start :: "string \<Rightarrow> string" where
  "trim_start s = strip_front white_space s"

definition trim_end :: "string \<Rightarrow> string" where
  "trim_end s = rev (strip_front (map rev white_space) (rev s))"

definition trim :: "string \<Rightarrow> string" where
  "trim s = trim_end (trim_start s)"

datatype command = Nothing | Submit string | Usage | Status | Peer_List | Help | Quit | Unknown

text \<open>The line is split at its first space (\<open>splitn(2, ' ')\<close>) and the first part decides.\<close>

definition parse_command :: "string \<Rightarrow> command" where
  "parse_command input =
     (let line = trim input
      in if line = [] then Nothing
         else
           let word = takeWhile (\<lambda>c. c \<noteq> CHR '' '') line;
               rest = dropWhile (\<lambda>c. c \<noteq> CHR '' '') line
           in if word = ''submit'' \<or> word = ''s'' then (if rest = [] then Usage else Submit (tl rest))
              else if word = ''status'' \<or> word = ''st'' then Status
              else if word = ''peers'' \<or> word = ''p'' then Peer_List
              else if word = ''help'' \<or> word = ''h'' then Help
              else if word = ''quit'' \<or> word = ''q'' \<or> word = ''exit'' then Quit
              else Unknown)"

text \<open>
  What a line does: it sends a request to the loop, prints, ends the program, or panics. \<open>s\<close> is the
  engine's state at that time and \<open>clock\<close> the system time.
\<close>

datatype command_outcome = Printed | Sent request | Exited | Command_Panic

definition run_command ::
  "int \<Rightarrow> node_id \<Rightarrow> string \<Rightarrow> ('sk, 'vk) pbft_state \<Rightarrow> command_outcome" where
  "run_command clock node_id input s =
     (case parse_command input of
        Submit data \<Rightarrow>
          (case request_new clock node_id (as_bytes data) of
             Ok req \<Rightarrow> (case is_primary s of None \<Rightarrow> Command_Panic | Some _ \<Rightarrow> Sent req)
           | _ \<Rightarrow> Command_Panic)
      | Status \<Rightarrow>
          (if short_id (st_node_id s) = None then Command_Panic
           else case primary s of
             None \<Rightarrow> Command_Panic
           | Some p \<Rightarrow> if short_id p = None then Command_Panic else Printed)
      | Peer_List \<Rightarrow>
          (if st_replicas s = [] then Printed
           else if primary s = None then Command_Panic
           else if list_all (\<lambda>r. short_id r \<noteq> None) (st_replicas s) then Printed
           else Command_Panic)
      | Quit \<Rightarrow> Exited
      | _ \<Rightarrow> Printed)"

end
