(* ===== verification/Program_Start.thy ===== *)
theory Program_Start
  imports Command_Line System_Model Scenarios
begin

text \<open>
  What the program of \<open>main.rs\<close> sets up. Started with the indices of one group, the nodes are the
  replicas of \<open>System_Model\<close>; started without an index they do not cooperate. What the user submits
  reaches the engine byte for byte.
\<close>

section \<open>Identifiers\<close>

definition indexed_id :: "('sk, 'vk) crypto_lib \<Rightarrow> nat \<Rightarrow> node_id" where
  "indexed_id L i = public_key_hex L (keypair_from_seed L (index_seed (of_nat i)))"

definition group_ids :: "('sk, 'vk) crypto_lib \<Rightarrow> nat \<Rightarrow> node_id list" where
  "group_ids L n = sort (map (indexed_id L) [0..<n])"

text \<open>The 256 seeds that differ in their first byte have different public keys.\<close>

definition index_keys_distinct :: "('sk, 'vk) crypto_lib \<Rightarrow> bool" where
  "index_keys_distinct L \<longleftrightarrow>
     inj (\<lambda>b. lib_sk_verifying_key L (lib_sk_from_bytes L ((replicate 32 0)[0 := b])))"

lemma public_key_hex_eq_iff:
  assumes "crypto_ok L"
  shows "public_key_hex L a = public_key_hex L b \<longleftrightarrow> verifying_key a = verifying_key b"
proof
  assume "public_key_hex L a = public_key_hex L b"
  then have "lib_hex_decode L (public_key_hex L a) = lib_hex_decode L (public_key_hex L b)" by simp
  then have "lib_vk_to_bytes L (verifying_key a) = lib_vk_to_bytes L (verifying_key b)"
    by (simp add: public_key_hex_def public_key_bytes_def crypto_okD [OF assms])
  then have "lib_vk_from_bytes L (lib_vk_to_bytes L (verifying_key a)) =
      lib_vk_from_bytes L (lib_vk_to_bytes L (verifying_key b))" by simp
  then show "verifying_key a = verifying_key b" by (simp add: crypto_okD [OF assms])
qed (simp add: public_key_hex_def public_key_bytes_def)

lemma unat_index_byte: "unat (ucast (of_nat i :: usize) :: byte) = i mod 256"
proof -
  have "unat (ucast (of_nat i :: usize) :: byte) = i mod 2 ^ 64 mod 2 ^ 8"
    by (simp add: unsigned_ucast_eq unat_of_nat take_bit_eq_mod)
  also have "\<dots> = i mod 256" by (simp add: mod_mod_cancel)
  finally show ?thesis .
qed

lemma indexed_id_eq_iff:
  assumes "crypto_ok L" and "index_keys_distinct L"
  shows "indexed_id L i = indexed_id L j \<longleftrightarrow> i mod 256 = j mod 256"
proof -
  have "indexed_id L i = indexed_id L j \<longleftrightarrow>
      (ucast (of_nat i :: usize) :: byte) = ucast (of_nat j :: usize)"
    using inj_eq [OF assms(2) [unfolded index_keys_distinct_def]]
    by (simp add: indexed_id_def public_key_hex_eq_iff [OF assms(1)] keypair_from_seed_def index_seed_def
        Let_def)
  also have "\<dots> \<longleftrightarrow> i mod 256 = j mod 256"
    by (metis unat_index_byte word_unat_eq_iff)
  finally show ?thesis .
qed

lemma inj_indexed_id:
  "crypto_ok L \<Longrightarrow> index_keys_distinct L \<Longrightarrow> n \<le> 256 \<Longrightarrow> inj_on (indexed_id L) {0..<n}"
  by (auto intro!: inj_onI simp: indexed_id_eq_iff)

lemma group_ids_simps [simp]:
  "length (group_ids L n) = n" "set (group_ids L n) = indexed_id L ` {0..<n}"
  by (simp_all add: group_ids_def)

lemma short_id_hex:
  assumes "crypto_ok L"
  shows "short_id (public_key_hex L kp) \<noteq> None"
proof -
  let ?s = "public_key_hex L kp"
  have len: "length ?s = 64" by (rule public_key_hex_length [OF assms])
  have "set ?s \<subseteq> set hex_digits"
    unfolding public_key_hex_def by (rule crypto_okD(8) [OF assms])
  then have "?s ! 16 \<in> set hex_digits" using len by (simp add: subset_code(1))
  moreover have "\<forall>c\<in>set hex_digits. of_char c < (128 :: nat)"
    by (simp add: hex_digits_def)
  ultimately have "of_char (?s ! 16) < (128 :: nat)" by blast
  with len show ?thesis by (simp add: short_id_def)
qed

lemma cli_replicas_eq:
  assumes "crypto_ok L"
  shows "cli_replicas L n (Some idx) i = Some (group_ids L (unat n))"
  using short_id_hex [OF assms]
  by (simp add: cli_replicas_def Let_def group_ids_def indexed_id_def [abs_def] list_all_iff)

section \<open>Starting\<close>

lemma connect_keeps_receiver:
  "connect_to_peer W info address conn nw = (r, nw', tasks) \<Longrightarrow> nw_receiver nw' = nw_receiver nw"
  by (auto simp: connect_to_peer_def store_peer_def Let_def
      split: res.splits prod.splits option.splits)

lemma connect_all_keeps_receiver:
  "connect_all W info conns as (nw, ts) = Some (nw', ts') \<Longrightarrow> nw_receiver nw' = nw_receiver nw"
proof (induction as arbitrary: nw ts)
  case (Cons a as)
  obtain r nw1 ts1 where c: "connect_to_peer W info a (conns a) nw = (r, nw1, ts1)" using prod_cases3 by blast
  with Cons.prems have "connect_all W info conns as (nw1, ts @ ts1) = Some (nw', ts')"
    by (cases r) auto
  from Cons.IH [OF this] connect_keeps_receiver [OF c] show ?case by simp
qed simp

lemma start_node_eq:
  assumes "cli_keypair L entropy seed index = Ok kp"
    and "connect_all W True conns bootstrap (network_new (public_key_hex L kp) port, [Accept_Task]) = Some (nw, ts)"
    and "cli_replicas L num_nodes index (public_key_hex L kp) = Some replicas"
  shows "start_node L W None conns now entropy port seed bootstrap num_nodes index =
    Ok (\<lparr>rn_node_id = public_key_hex L kp, rn_network = nw\<lparr>nw_receiver := False\<rparr>,
         rn_state = pbft_state_new now (public_key_hex L kp) kp replicas (pbft_config_new num_nodes),
         rn_outgoing = [], rn_committed = []\<rparr>, ts)"
  using assms connect_all_keeps_receiver [OF assms(2)]
  by (simp add: start_node_def start_listener_def Let_def take_message_receiver_def network_new_def)

lemma start_node_state:
  assumes "start_node L W bind conns now entropy port seed bootstrap num_nodes index = Ok (rn, ts)"
  shows "\<exists>kp replicas. cli_keypair L entropy seed index = Ok kp \<and>
    cli_replicas L num_nodes index (public_key_hex L kp) = Some replicas \<and> rn_node_id rn = public_key_hex L kp \<and>
    rn_state rn = pbft_state_new now (public_key_hex L kp) kp replicas (pbft_config_new num_nodes) \<and>
    rn_outgoing rn = []"
  using assms
  by (auto simp: start_node_def Let_def split: res.splits option.splits prod.splits bool.splits)

section \<open>Groups of indices\<close>

lemma indexed_group:
  fixes num_nodes :: usize
  assumes "crypto_ok L" and "index_keys_distinct L" and "unat num_nodes = 3 * f + 1" and "num_nodes \<le> 256"
    and "H \<subseteq> set (group_ids L (unat num_nodes))" and "card (set (group_ids L (unat num_nodes)) - H) \<le> f"
  obtains keys where "correct_group L keys (group_ids L (unat num_nodes)) f H"
    and "\<And>i. i < unat num_nodes \<Longrightarrow> keys (indexed_id L i) = keypair_from_seed L (index_seed (of_nat i))"
proof -
  let ?n = "unat num_nodes"
  define keys where "keys i = keypair_from_seed L
      (index_seed (of_nat (inv_into {0..<?n} (indexed_id L) i)))" for i
  have n: "?n \<le> 256" using assms(4) by (simp add: word_le_nat_alt)
  note inj = inj_indexed_id [OF assms(1,2) n]
  have key: "keys (indexed_id L i) = keypair_from_seed L (index_seed (of_nat i))" if "i < ?n" for i
    using that by (simp add: keys_def inv_into_f_f [OF inj])
  have "correct_group L keys (group_ids L ?n) f H"
    unfolding correct_group_def
  proof (intro conjI ballI)
    show "distinct (group_ids L ?n)" by (simp add: group_ids_def distinct_map inj)
    show "length (group_ids L ?n) < 2 ^ 64" using n by simp
    fix i assume "i \<in> H"
    then obtain k where "k < ?n" "i = indexed_id L k" using assms(5) by auto
    then show "keypair_wf L (keys i)" "public_key_hex L (keys i) = i"
      by (simp_all add: key indexed_id_def [symmetric])
  qed (use assms in simp_all)
  with key show ?thesis by (rule that [rotated])
qed

lemma indexed_start_state:
  assumes "crypto_ok L"
    and "start_node L W bind conns now entropy port None bootstrap num_nodes (Some (of_nat i)) = Ok (rn, ts)"
  shows "rn_state rn = pbft_state_new now (indexed_id L i) (keypair_from_seed L (index_seed (of_nat i)))
      (group_ids L (unat num_nodes)) (pbft_config_new num_nodes)"
    and "rn_outgoing rn = []"
  using start_node_state [OF assms(2)]
  by (auto simp: cli_keypair_def cli_replicas_eq [OF assms(1)] indexed_id_def)

section \<open>White space\<close>

lemma strip_front_shorter: "length (strip_front cs s) \<le> length s"
proof (induction cs s rule: strip_front.induct)
  case (1 cs s)
  show ?case
  proof (cases "front_of cs s")
    case None
    then show ?thesis by (simp add: strip_front.simps [of cs s])
  next
    case (Some c)
    with 1 [OF Some] show ?thesis by (simp add: strip_front.simps [of cs s])
  qed
qed

lemma strip_front_fixed: "strip_front cs s = s \<longleftrightarrow> front_of cs s = None"
proof (cases "front_of cs s")
  case None
  then show ?thesis by (simp add: strip_front.simps [of cs s])
next
  case (Some c)
  then have "c \<noteq> [] \<and> take (length c) s = c" by (auto simp: front_of_def find_Some_iff)
  then have "length (drop (length c) s) < length s" by (cases s) auto
  with strip_front_shorter [of cs "drop (length c) s"] have "strip_front cs (drop (length c) s) \<noteq> s" by auto
  with Some show ?thesis by (simp add: strip_front.simps [of cs s])
qed

lemma front_of_None:
  "front_of cs s = None \<longleftrightarrow> (\<forall>c\<in>set cs. c = [] \<or> take (length c) s \<noteq> c)"
  by (auto simp: front_of_def find_None_iff)

lemma white_space_long: "\<forall>c\<in>set (map rev white_space). 2 \<le> length c \<longrightarrow> CHR '' '' \<notin> set c"
  by (simp add: white_space_def)

lemma white_space_blocked:
  assumes "front_of (map rev white_space) s = None" and "s \<noteq> []"
  shows "front_of (map rev white_space) (s @ CHR '' '' # t) = None"
  unfolding front_of_None
proof
  fix c assume c: "c \<in> set (map rev white_space)"
  show "c = [] \<or> take (length c) (s @ CHR '' '' # t) \<noteq> c"
  proof (cases "length c \<le> length s")
    case True
    with assms(1) c show ?thesis unfolding front_of_None by auto
  next
    case False
    then have "2 \<le> length c" using assms(2) by (cases s) auto
    with white_space_long c have "CHR '' '' \<notin> set c" by blast
    moreover have "CHR '' '' \<in> set (take (length c) (s @ CHR '' '' # t))"
      using False by (cases "length c - length s") auto
    ultimately show ?thesis by metis
  qed
qed

lemma trim_submit:
  assumes "trim_end data = data" and "data \<noteq> []"
  shows "trim (''submit '' @ data @ [CHR 0x0A]) = ''submit '' @ data"
proof -
  have "strip_front (map rev white_space) (rev data) = rev data"
    using assms(1) by (metis rev_rev_ident trim_end_def)
  then have "front_of (map rev white_space) (rev data) = None" by (simp only: strip_front_fixed)
  from white_space_blocked [OF this, of "rev ''submit''"] assms(2)
  have "front_of (map rev white_space) (rev data @ rev ''submit '') = None" by simp
  then have "strip_front (map rev white_space) (rev data @ rev ''submit '') = rev data @ rev ''submit ''"
    by (simp only: strip_front_fixed)
  moreover have "front_of (map rev white_space) (CHR 0x0A # y) = Some [CHR 0x0A]" for y
    by (simp add: front_of_def white_space_def)
  ultimately have "trim_end (''submit '' @ data @ [CHR 0x0A]) = ''submit '' @ data"
    by (simp add: trim_end_def strip_front.simps [of _ "CHR 0x0A # _"])
  moreover have "trim_start (''submit '' @ y) = ''submit '' @ y" for y
    unfolding trim_start_def strip_front_fixed by (simp add: front_of_def white_space_def)
  ultimately show ?thesis by (simp only: trim_def)
qed

section \<open>Properties\<close>

text \<open>
  The programs that are started with the indices of one group of \<open>3 f + 1 \<le> 256\<close> nodes are a
  correct group: with whatever bootstrap peers, port and entropy, each that can listen starts in exactly the state
  that the system of replicas gives its identifier, so the theorems on the system hold of them.
\<close>

lemma indexed_programs_form_group:
  assumes "crypto_ok L" and "index_keys_distinct L" and "unat num_nodes = 3 * f + 1" and "num_nodes \<le> 256"
    and "H \<subseteq> set (group_ids L (unat num_nodes))" and "card (set (group_ids L (unat num_nodes)) - H) \<le> f"
  shows "\<exists>keys. correct_group L keys (group_ids L (unat num_nodes)) f H \<and>
    (\<forall>i < unat num_nodes. \<forall>W conns entropy port bootstrap nw ts.
       connect_all W True conns bootstrap (network_new (indexed_id L i) port, [Accept_Task]) = Some (nw, ts) \<longrightarrow>
       (\<exists>rn. start_node L W None conns (clock (indexed_id L i)) entropy port None bootstrap num_nodes (Some (of_nat i))
            = Ok (rn, ts) \<and>
          rn_state rn = sys_nodes (system_init clock keys (group_ids L (unat num_nodes))) (indexed_id L i)))"
proof -
  obtain keys where gr: "correct_group L keys (group_ids L (unat num_nodes)) f H"
    and key: "\<And>i. i < unat num_nodes \<Longrightarrow> keys (indexed_id L i) = keypair_from_seed L (index_seed (of_nat i))"
    using indexed_group [OF assms] by blast
  have "\<exists>rn. start_node L W None conns (clock (indexed_id L i)) entropy port None bootstrap num_nodes
        (Some (of_nat i)) = Ok (rn, ts) \<and>
      rn_state rn = sys_nodes (system_init clock keys (group_ids L (unat num_nodes))) (indexed_id L i)"
    if i: "i < unat num_nodes"
      and c: "connect_all W True conns bootstrap (network_new (indexed_id L i) port, [Accept_Task]) = Some (nw, ts)"
    for i W conns entropy port bootstrap nw ts
  proof -
    have kp: "cli_keypair L entropy None (Some (of_nat i)) = Ok (keypair_from_seed L (index_seed (of_nat i)))"
      by (simp add: cli_keypair_def)
    from start_node_eq [OF kp c [unfolded indexed_id_def] cli_replicas_eq [OF assms(1)]] show ?thesis
      by (simp add: system_init_def key [OF i, unfolded indexed_id_def] indexed_id_def)
  qed
  with gr show ?thesis by blast
qed

text \<open>
  C35. The replica list of an indexed group has no duplicates exactly up to 256 nodes: the index is
  cut to one byte of the seed.
\<close>

theorem indexed_replicas_distinct_iff:
  assumes "crypto_ok L" and "index_keys_distinct L"
  shows "\<exists>replicas. cli_replicas L num_nodes (Some idx) node_id = Some replicas \<and>
    length replicas = unat num_nodes \<and> (distinct replicas \<longleftrightarrow> num_nodes \<le> 256)"
proof -
  have "num_nodes \<le> 256" if "inj_on (indexed_id L) {0..<unat num_nodes}"
  proof (rule ccontr)
    assume "\<not> num_nodes \<le> 256"
    then have "256 < unat num_nodes" by (simp add: word_le_nat_alt)
    moreover have "indexed_id L 0 = indexed_id L 256" by (simp add: indexed_id_eq_iff [OF assms])
    ultimately show False using inj_onD [OF that, of 0 256] by simp
  qed
  then have "distinct (group_ids L (unat num_nodes)) \<longleftrightarrow> num_nodes \<le> 256"
    using inj_indexed_id [OF assms, of "unat num_nodes"]
    by (auto simp: group_ids_def distinct_map word_le_nat_alt)
  then show ?thesis by (simp add: cli_replicas_eq [OF assms(1)])
qed

text \<open>
  C36. A program that is started without an index has itself as its only replica, and keeps it: in
  no state of any run does it accept the proposal of another node, although its quorum is that of
  \<open>--nodes\<close>.
\<close>

theorem unindexed_program_rejects_others:
  assumes "start_node L W bind conns now entropy port seed bootstrap num_nodes None = Ok (rn, ts)"
    and "replica_run L evs (rn_state rn) = (alive, s', h)" and "pp_primary_id pp \<noteq> rn_node_id rn"
  shows "quorum (st_config s') = quorum (pbft_config_new num_nodes) \<and> st_replicas s' = [rn_node_id rn] \<and>
    handle_pre_prepare L t pp s' =
      (Err (if pp_view pp = st_view s' then NotPrimary else InvalidView), s', [])"
proof -
  have "st_replicas (rn_state rn) = [rn_node_id rn]" "st_config (rn_state rn) = pbft_config_new num_nodes"
    using assms(1)
    by (auto simp: start_node_def start_listener_def cli_replicas_def Let_def split: res.splits option.splits prod.splits bool.splits)
  then have rs: "st_replicas s' = [rn_node_id rn]" "st_config s' = pbft_config_new num_nodes"
    using trace_same_replica [OF replica_run_trace_all [OF assms(2)]] by (simp_all add: same_replica_def)
  then show ?thesis
    using assms(3) by (simp add: handle_pre_prepare_def handle_pre_prepare_section_def primary_def primary_of_def)
qed

text \<open>
  C34. What the user submits reaches the engine byte for byte: a line \<open>submit data\<close> whose data does
  not end in white space becomes a request of this node with exactly these bytes, inner and leading
  spaces included.
\<close>

theorem submitted_line_becomes_request:
  assumes "trim_end data = data" and "data \<noteq> []" and "0 \<le> clock" and "st_replicas s \<noteq> []"
  shows "run_command clock node_id (''submit '' @ data @ [CHR 0x0A]) s =
    Sent \<lparr>rq_client_id = node_id, rq_timestamp = word_of_nat (nat clock div 1000000),
          rq_operation = as_bytes data\<rparr>"
proof -
  have "parse_command (''submit '' @ data @ [CHR 0x0A]) = Submit data"
    unfolding parse_command_def trim_submit [OF assms(1,2)] by simp
  then show ?thesis
    using assms(3,4) by (simp add: run_command_def request_new_def is_primary_def primary_def primary_of_def)
qed

section \<open>Witnesses\<close>

lemma toy_index_keys: "index_keys_distinct toy_lib"
  by (simp add: index_keys_distinct_def toy_lib_def numeral_eq_Suc)

theorem indexed_replicas_distinct_iff_witness:
  "\<exists>replicas. cli_replicas toy_lib 257 (Some 0) ''n'' = Some replicas \<and> \<not> distinct replicas"
  using indexed_replicas_distinct_iff [OF toy_lib_ok toy_index_keys, of 257 0 "''n''"] by auto

theorem unindexed_program_rejects_others_witness:
  "\<exists>rn. start_node toy_lib toy_wire None (\<lambda>_. None) 0 [3] 8000 None [] 4 None = Ok (rn, [Accept_Task]) \<and>
    handle_pre_prepare toy_lib 5 (signed_pre_prepare toy_lib (toy_keypair 1) 0 1 sample_request) (rn_state rn)
      = (Err NotPrimary, rn_state rn, [])"
proof -
  obtain rn where start: "start_node toy_lib toy_wire None (\<lambda>_. None) 0 [3] 8000 None [] 4 None = Ok (rn, [Accept_Task])"
    and rn: "rn_node_id rn = public_key_hex toy_lib (keypair_generate toy_lib [3])" "st_view (rn_state rn) = 0"
    by (simp add: start_node_def start_listener_def cli_keypair_def cli_replicas_def Let_def take_message_receiver_def network_new_def)
  have "toy_id 1 \<noteq> rn_node_id rn"
    unfolding rn(1) toy_id_def public_key_hex_eq_iff [OF toy_lib_ok]
    by (simp add: toy_keypair_def keypair_from_seed_def keypair_generate_def toy_lib_def)
  with unindexed_program_rejects_others [OF start, of "[]" True "rn_state rn" "[]"
      "signed_pre_prepare toy_lib (toy_keypair 1) 0 1 sample_request" 5] rn(2) start
  show ?thesis by simp
qed

theorem submitted_line_becomes_request_witness:
  "run_command 5000000 ''n'' (''submit '' @ ''a  b'' @ [CHR 0x0A]) solo =
    Sent \<lparr>rq_client_id = ''n'', rq_timestamp = 5, rq_operation = as_bytes ''a  b''\<rparr>"
proof -
  have "trim_end ''a  b'' = ''a  b''"
    by (simp add: trim_end_def strip_front.simps front_of_def white_space_def)
  from submitted_line_becomes_request [OF this, of 5000000 solo "''n''"] show ?thesis
    by (simp add: solo_def)
qed

end
