(* ===== verification/Node_Properties.thy ===== *)
theory Node_Properties
  imports Node_Runtime Scenarios
begin

text \<open>
  What a node adds to the engine: messages reach a connected peer in the order in which the engine
  sent them, the loop of the program stops exactly on a consensus message of a peer whose identifier
  cannot be cut for the log, a fresh node is a group of its own, and a started node no longer
  accepts requests through \<open>submit_request\<close>.
\<close>

section \<open>Channels\<close>

lemma committed_of_executed: "committed_of es = executed_requests es"
  by (induction es rule: committed_of.induct) simp_all

text \<open>The messages of a list that are meant for one peer.\<close>

fun messages_for :: "node_id \<Rightarrow> outgoing_message list \<Rightarrow> network_message list" where
  "messages_for i [] = []"
| "messages_for i (Broadcast msg # outs) = msg # messages_for i outs"
| "messages_for i (SendTo target msg # outs) =
     (if target = i then msg # messages_for i outs else messages_for i outs)"

lemma dispatch_frame:
  "nw_peers (dispatch_outgoing out nw) = nw_peers nw" "nw_next (dispatch_outgoing out nw) = nw_next nw"
  "nw_closed (dispatch_outgoing out nw) = nw_closed nw"
  by (auto simp: dispatch_outgoing_def send_all_frame peer_send_frame [OF surjective_pairing]
      split: outgoing_message.splits option.splits)

lemma dispatch_wf: "network_wf nw \<Longrightarrow> network_wf (dispatch_outgoing out nw)"
  by (erule network_wf_frame) (simp_all add: dispatch_frame)

lemma network_wf_senders: "network_wf nw \<Longrightarrow> distinct (map ph_sender (hm_values (nw_peers nw)))"
  unfolding network_wf_def by (intro hm_values_distinct) blast

lemma dispatch_queue:
  assumes "network_wf nw" and "hm_get (nw_peers nw) i = Some h" and "ph_sender h \<notin> nw_closed nw"
  shows "nw_queues (dispatch_outgoing out nw) (ph_sender h) =
    nw_queues nw (ph_sender h) @ messages_for i [out]"
proof (cases out)
  case (Broadcast msg)
  have "h \<in> set (hm_values (nw_peers nw))" using assms(2) by (auto simp: set_hm_values)
  with Broadcast assms(3) send_all_queues [OF network_wf_senders [OF assms(1)]] show ?thesis
    by (simp add: dispatch_outgoing_def)
next
  case (SendTo target msg)
  note send = peer_send_frame [OF surjective_pairing, THEN conjunct2, THEN conjunct2, THEN conjunct2, THEN conjunct2]
  have other: "ph_sender h \<noteq> ph_sender k" if "hm_get (nw_peers nw) target = Some k" "target \<noteq> i" for k
    using assms(1,2) that unfolding network_wf_def by metis
  show ?thesis
  proof (cases "hm_get (nw_peers nw) target")
    case None
    with SendTo assms(2) show ?thesis by (auto simp: dispatch_outgoing_def)
  next
    case (Some k)
    with SendTo assms(2,3) other [OF Some] show ?thesis
      by (cases "target = i") (simp_all add: dispatch_outgoing_def send)
  qed
qed

lemma messages_for_Cons: "messages_for i (out # outs) = messages_for i [out] @ messages_for i outs"
  by (cases out) simp_all

lemma drained:
  assumes "network_wf (rn_network rn)" and "hm_get (nw_peers (rn_network rn)) i = Some h"
    and "ph_sender h \<notin> nw_closed (rn_network rn)"
  shows "nw_queues (rn_network ((dispatch_next ^^ length (rn_outgoing rn)) rn)) (ph_sender h) =
      nw_queues (rn_network rn) (ph_sender h) @ messages_for i (rn_outgoing rn) \<and>
    rn_outgoing ((dispatch_next ^^ length (rn_outgoing rn)) rn) = []"
  using assms
proof (induction "rn_outgoing rn" arbitrary: rn)
  case Nil
  then show ?case by (simp add: Nil.hyps [symmetric])
next
  case (Cons out outs)
  let ?rn = "rn\<lparr>rn_network := dispatch_outgoing out (rn_network rn), rn_outgoing := outs\<rparr>"
  have step: "dispatch_next rn = ?rn"
    by (simp add: dispatch_next_def Cons.hyps(2) [symmetric])
  have len: "length (rn_outgoing rn) = Suc (length (rn_outgoing ?rn))"
    using Cons.hyps(2) [symmetric] by simp
  have "nw_queues (rn_network ((dispatch_next ^^ length (rn_outgoing ?rn)) ?rn)) (ph_sender h) =
      nw_queues (rn_network ?rn) (ph_sender h) @ messages_for i (rn_outgoing ?rn) \<and>
    rn_outgoing ((dispatch_next ^^ length (rn_outgoing ?rn)) ?rn) = []"
    using Cons.prems by (intro Cons.hyps(1)) (simp_all add: dispatch_wf dispatch_frame)
  with Cons.hyps(2) [symmetric] dispatch_queue [OF Cons.prems, of out] show ?case
    unfolding len funpow_Suc_right comp_def step by (simp add: messages_for_Cons [of i out outs])
qed

section \<open>The loop of the program\<close>

text \<open>A message that the loop does not survive: its log line cuts the identifier of the sender.\<close>

fun unprintable_sender :: "loop_event \<Rightarrow> bool" where
  "unprintable_sender (Network_Message now peer_id (Consensus cm)) \<longleftrightarrow> short_id peer_id = None"
| "unprintable_sender _ \<longleftrightarrow> False"

lemma unprintable_sender_iff:
  "unprintable_sender ev \<longleftrightarrow>
     (\<exists>now peer_id cm. ev = Network_Message now peer_id (Consensus cm) \<and> short_id peer_id = None)"
  by (cases ev rule: unprintable_sender.cases) auto

lemma run_engine_replica:
  assumes "crypto_ok L" "state_wf L (rn_state rn)" "ready (rn_state rn)"
    and "run_engine (replica_step L ev (rn_state rn)) rn = (b, rn')"
  shows "b \<and> state_wf L (rn_state rn') \<and> ready (rn_state rn')"
proof -
  obtain r s' es where st: "replica_step L ev (rn_state rn) = (r, s', es)" using prod_cases3 by blast
  from replica_step_state_wf [OF st assms(1,2)] trace_ready [OF replica_step_trace_all [OF st] assms(3)]
    replica_step_no_panic [OF assms(1-3), of ev] st assms(4)
  show ?thesis by (auto simp: run_engine_def)
qed

lemma as_replica_step:
  "main_request L now req rn = run_engine (replica_step L (Receive now (Request req)) (rn_state rn)) rn"
  "process_message L now cm s = replica_step L (Receive now cm) s"
  by (simp_all add: main_request_def replica_step_def process_message_def)

lemma main_turn_sound:
  assumes "crypto_ok L" "state_wf L (rn_state rn)" "ready (rn_state rn)" "main_turn L ev rn = (b, rn')"
  shows "b \<longleftrightarrow> \<not> unprintable_sender ev"
    and "b \<Longrightarrow> state_wf L (rn_state rn') \<and> ready (rn_state rn')"
proof -
  have "(b \<longleftrightarrow> \<not> unprintable_sender ev) \<and> (b \<longrightarrow> state_wf L (rn_state rn') \<and> ready (rn_state rn'))"
  proof (cases ev)
    case (User_Request now req)
    with assms(4) run_engine_replica [OF assms(1-3)] show ?thesis
      by (simp add: main_turn_def as_replica_step) blast
  next
    case (Network_Message now peer_id msg)
    with assms run_engine_replica [OF assms(1-3)] show ?thesis
      by (cases msg) (auto simp: main_turn_def main_receive_def as_replica_step split: option.splits)
  next
    case Send_Turn
    with assms show ?thesis by (auto simp: main_turn_def dispatch_next_def split: list.splits)
  qed
  then show "b \<longleftrightarrow> \<not> unprintable_sender ev" "b \<Longrightarrow> state_wf L (rn_state rn') \<and> ready (rn_state rn')"
    by blast+
qed

lemma main_loop_alive_iff:
  assumes "crypto_ok L" "state_wf L (rn_state rn)" "ready (rn_state rn)"
  shows "fst (main_loop L evs rn) \<longleftrightarrow> (\<forall>ev\<in>set evs. \<not> unprintable_sender ev)"
  using assms(2,3)
proof (induction evs arbitrary: rn)
  case (Cons ev evs)
  obtain b rn' where turn: "main_turn L ev rn = (b, rn')" by fastforce
  show ?case
    using main_turn_sound [OF assms(1) Cons.prems turn] Cons.IH [of rn'] turn
    by (cases b) auto
qed simp

section \<open>A group of one\<close>

lemma solo_request:
  assumes "kp' = kp" and "i = public_key_hex L kp"
  shows "\<exists>s. handle_request L now req (pbft_state_new t i kp [i] (pbft_config_new 1)) = (Ok (), s,
    [Out (Broadcast (Consensus (PrePrepare (signed_pre_prepare L kp 0 1 req)))),
     Out (Broadcast (Consensus (Prepare (signed_prepare L kp 0 1 (request_digest L req))))),
     Out (Broadcast (Consensus (Commit (signed_commit L kp 0 1 (request_digest L req))))),
     Committed_Request req])"
  by (simp add: run_defs signed_pre_prepare_def signed_prepare_def signed_commit_def state_sign_def assms(2))

section \<open>Properties\<close>

text \<open>
  C30. Messages reach each peer in the order in which the engine sent them: when the sending task has
  emptied its channel, the queue of a connected peer whose writer runs has grown by exactly the
  broadcasts and the messages sent to that peer, in that order.
\<close>

theorem messages_dispatched_in_order:
  assumes "network_reach W node_id port (rn_network rn)"
    and "hm_get (nw_peers (rn_network rn)) i = Some h" and "ph_sender h \<notin> nw_closed (rn_network rn)"
  shows "nw_queues (rn_network ((dispatch_next ^^ length (rn_outgoing rn)) rn)) (ph_sender h) =
      nw_queues (rn_network rn) (ph_sender h) @ messages_for i (rn_outgoing rn) \<and>
    rn_outgoing ((dispatch_next ^^ length (rn_outgoing rn)) rn) = []"
  by (rule drained [OF network_reach_wf [OF assms(1)] assms(2,3)])

text \<open>
  C29. A program that starts from a fresh engine with a non-empty replica list survives every
  sequence of requests, network messages and sending turns, but for one kind of event: a consensus
  message of a peer whose identifier is shorter than 16 bytes (or has a character across byte 16)
  stops it.
\<close>

theorem main_loop_stops_iff:
  assumes "crypto_ok L" and "keypair_wf L kp" and "replicas \<noteq> []"
    and "rn_state rn = pbft_state_new now (public_key_hex L kp) kp replicas (pbft_config_new n)"
  shows "fst (main_loop L evs rn) \<longleftrightarrow>
    \<not> (\<exists>now peer_id cm. Network_Message now peer_id (Consensus cm) \<in> set evs \<and> short_id peer_id = None)"
proof -
  have "fst (main_loop L evs rn) \<longleftrightarrow> (\<forall>ev\<in>set evs. \<not> unprintable_sender ev)"
    using assms by (intro main_loop_alive_iff) (auto simp: ready_def intro: state_wf_new)
  then show ?thesis unfolding unprintable_sender_iff by blast
qed

text \<open>
  A node fresh from \<open>Node::new\<close> is a group of one: it commits every first request that it
  submits itself, after broadcasting the three signed messages of the protocol.
\<close>

lemma fresh_node_commits_alone:
  assumes "0 \<le> clock" and "nd = node_new L t entropy port (Some seed)" and "kp = keypair_from_seed L seed"
    and "req = \<lparr>rq_client_id = public_key_hex L kp, rq_timestamp = word_of_nat (nat clock div 1000000),
                rq_operation = operation\<rparr>"
  shows "\<exists>nd'. submit_request L now clock operation nd = (Ok (), nd') \<and> nd_committed nd' = [req] \<and>
    nd_outgoing nd' =
      [Broadcast (Consensus (PrePrepare (signed_pre_prepare L kp 0 1 req))),
       Broadcast (Consensus (Prepare (signed_prepare L kp 0 1 (request_digest L req)))),
       Broadcast (Consensus (Commit (signed_commit L kp 0 1 (request_digest L req))))]"
proof -
  obtain s where "handle_request L now req (pbft_state_new t (public_key_hex L kp) kp
      [public_key_hex L kp] (pbft_config_new 1)) = (Ok (), s,
    [Out (Broadcast (Consensus (PrePrepare (signed_pre_prepare L kp 0 1 req)))),
     Out (Broadcast (Consensus (Prepare (signed_prepare L kp 0 1 (request_digest L req))))),
     Out (Broadcast (Consensus (Commit (signed_commit L kp 0 1 (request_digest L req))))),
     Committed_Request req])"
    using solo_request [OF refl refl] by blast
  from this [unfolded assms(3,4)] show ?thesis
    using assms(1)
    by (simp add: submit_request_def node_new_def Let_def request_new_def engine_outcome_def assms(2-4))
qed

text \<open>
  Starting a node moves the engine into its loop: from then on \<open>submit_request\<close> answers \<open>Ok\<close>
  and does nothing at all, and a second start panics.
\<close>

lemma started_node_drops_requests:
  assumes "node_start bind nd = (Ok (s, ts), nd')" and "0 \<le> clock"
  shows "submit_request L now clock operation nd' = (Ok (), nd') \<and> fst (node_start None nd') = Panic \<and>
    nd_consensus nd = Some s"
  using assms
  by (auto simp: node_start_def start_listener_def take_message_receiver_def submit_request_def request_new_def
      split: prod.splits bool.splits option.splits res.splits)

text \<open>
  The timer warns exactly when \<open>check_timeout\<close> would start a view change, but for a replica that is
  changing the view already.
\<close>

lemma timeout_warning_iff:
  "\<not> st_view_changing s \<Longrightarrow> timeout_warning now s = Some True \<Longrightarrow>
     check_timeout L now s = start_view_change L s"
  "\<not> st_view_changing s \<Longrightarrow> timeout_warning now s = Some False \<Longrightarrow> check_timeout L now s = (Ok (), s, [])"
  by (auto simp: timeout_warning_def check_timeout_def split: bool.splits)

section \<open>The loop of a node\<close>

lemma node_receive_sound:
  assumes "crypto_ok L" "state_wf L (rn_state rn)" "ready (rn_state rn)"
    and "node_receive L now peer_id msg rn = (b, rn')"
  shows "b \<and> state_wf L (rn_state rn') \<and> ready (rn_state rn')"
  using assms(2-4) run_engine_replica [OF assms(1-3)]
  by (cases msg) (auto simp: node_receive_def as_replica_step)

lemma node_loop_survives:
  assumes "crypto_ok L" "state_wf L (rn_state rn)" "ready (rn_state rn)"
  shows "fst (node_loop L ms rn)"
  using assms(2,3)
proof (induction ms arbitrary: rn)
  case (Cons m ms)
  obtain now peer_id msg b rn' where m: "m = (now, peer_id, msg)"
    and r: "node_receive L now peer_id msg rn = (b, rn')"
    using prod_cases3 by (metis surj_pair)
  show ?case
    using node_receive_sound [OF assms(1) Cons.prems r] Cons.IH [of rn'] by (simp add: m r)
qed simp

text \<open>
  The loop of \<open>Node::start\<close> and the loop of \<open>main.rs\<close> treat the same messages alike, result, state
  and channels, when the senders' identifiers can be printed and a ping names its sender. (They
  differ on a ping that names somebody else: the first answers to the name, the second to the sender.)
\<close>

lemma messages_agree:
  assumes "short_id peer_id \<noteq> None" and "\<And>i t. msg = Ping i t \<Longrightarrow> i = peer_id"
  shows "node_receive L now peer_id msg rn = main_receive L now peer_id msg rn"
  using assms by (cases msg) (auto simp: node_receive_def main_receive_def split: option.splits)

lemma loops_agree:
  assumes "\<And>now i msg. (now, i, msg) \<in> set ms \<Longrightarrow> short_id i \<noteq> None \<and> (\<forall>j t. msg = Ping j t \<longrightarrow> j = i)"
  shows "node_loop L ms rn = main_loop L (map (\<lambda>(now, i, msg). Network_Message now i msg) ms) rn"
  using assms
proof (induction ms arbitrary: rn)
  case (Cons m ms)
  obtain now peer_id msg where m: "m = (now, peer_id, msg)" by (metis surj_pair)
  have "node_receive L now peer_id msg rn = main_receive L now peer_id msg rn"
    using Cons.prems [of now peer_id msg] by (intro messages_agree) (simp_all add: m)
  moreover have "node_loop L ms rn' = main_loop L (map (\<lambda>(now, i, msg). Network_Message now i msg) ms) rn'" for rn'
    by (rule Cons.IH, rule Cons.prems, rule list.set_intros(2))
  ultimately show ?case by (simp add: m main_turn_def split: prod.splits bool.splits)
qed simp

section \<open>Witnesses\<close>

definition toy_running :: "network \<Rightarrow> outgoing_message list \<Rightarrow> (byte, byte) running" where
  "toy_running nw outs =
     \<lparr>rn_node_id = toy_id 2, rn_network = nw, rn_state = member 2, rn_outgoing = outs, rn_committed = []\<rparr>"

theorem messages_dispatched_in_order_witness:
  "\<exists>rn c. length (rn_outgoing rn) = 3 \<and>
    nw_queues (rn_network ((dispatch_next ^^ 3) (rn :: (byte, byte) running))) c =
      nw_queues (rn_network rn) c @ [Ping [] 1, Ping [] 3]"
proof -
  obtain nw' where reach: "network_reach toy_wire ''n'' 8000 nw'"
    and peers: "nw_peers nw' = hm_insert toy_peer
      \<lparr>ph_info = \<lparr>pi_node_id = toy_peer, pi_address = peer_address ''10.0.0.7:5555'' 8001, pi_connected = True\<rparr>,
       ph_sender = 0\<rparr> hm_new" and closed: "nw_closed nw' = {}"
    by (rule toy_network)
  let ?rn = "toy_running nw' [Broadcast (Ping [] 1), SendTo ''other'' (Ping [] 2), SendTo toy_peer (Ping [] 3)]"
  have "length (rn_outgoing ?rn) = 3" by (simp add: toy_running_def)
  with messages_dispatched_in_order [of toy_wire "''n''" 8000 ?rn toy_peer] show ?thesis
    using reach closed by (intro exI [of _ ?rn] exI [of _ 0]) (simp add: toy_running_def peers toy_peer_def numeral_3_eq_3)
qed

theorem main_loop_stops_iff_witness:
  "\<not> fst (main_loop toy_lib [Network_Message 1 ''abc'' (Consensus (Request sample_request))]
      (toy_running (network_new (toy_id 2) 8000) []))"
  by (subst main_loop_stops_iff [of _ "toy_keypair 2" "map toy_id [0, 1, 2, 3]" _ 0 4])
    (auto simp: toy_running_def member_def short_id_def)

end
