(* ===== verification/Program_Group.thy ===== *)
theory Program_Group
  imports Program_Start Node_Properties Ledger Group_Run
begin

text \<open>
  The programs of \<open>main.rs\<close> together. A step is one turn of the loop of one correct program; a
  message it receives is limited as in \<open>System_Model\<close>, with the statements that the correct
  programs have put into their outgoing channels as the signed ones. The group of programs refines
  the system of replicas, so what is proved of the system holds of the programs that \<open>start_node\<close>
  starts.
\<close>

section \<open>Programs and their channels\<close>

record ('sk, 'vk) cluster =
  cl_programs :: "node_id \<Rightarrow> ('sk, 'vk) running"
  cl_signed :: "(node_id \<times> statement) set"

definition out_statements :: "outgoing_message list \<Rightarrow> statement set" where
  "out_statements outs = (\<Union>out\<in>set outs. effect_statements (Out out))"

lemma out_statements_simps [simp]:
  "out_statements [] = {}" "out_statements (out # outs) = effect_statements (Out out) \<union> out_statements outs"
  "out_statements (outs @ outs') = out_statements outs \<union> out_statements outs'"
  by (simp_all add: out_statements_def)

lemma out_statements_outgoing [simp]: "out_statements (outgoing_of es) = statements es"
  by (induction es rule: outgoing_of.induct) auto

text \<open>The event at the engine that a turn of the loop is, if it is one.\<close>

fun engine_event :: "loop_event \<Rightarrow> event option" where
  "engine_event (User_Request now req) = Some (Receive now (Request req))"
| "engine_event (Network_Message now peer_id (Consensus cm)) = Some (Receive now cm)"
| "engine_event _ = None"

inductive cluster_step ::
  "('sk, 'vk) crypto_lib \<Rightarrow> node_id set \<Rightarrow> (event \<Rightarrow> ('sk, 'vk) pbft_state \<Rightarrow> bool)
     \<Rightarrow> ('sk, 'vk) cluster \<Rightarrow> ('sk, 'vk) cluster \<Rightarrow> bool"
  for L H D where
  turn_at:
    "i \<in> H \<Longrightarrow>
     (\<And>e. engine_event ev = Some e \<Longrightarrow> D e (rn_state (cl_programs c i))) \<Longrightarrow>
     (\<And>e msg. engine_event ev = Some e \<Longrightarrow> msg \<in> event_messages e \<Longrightarrow> authentic L H (cl_signed c) msg) \<Longrightarrow>
     main_turn L ev (cl_programs c i) = (True, rn') \<Longrightarrow>
     cluster_step L H D c
       \<lparr>cl_programs = (cl_programs c)(i := rn'),
        cl_signed = cl_signed c \<union> {i} \<times> out_statements (rn_outgoing rn')\<rparr>"

inductive cluster_reach ::
  "('sk, 'vk) crypto_lib \<Rightarrow> node_id set \<Rightarrow> (event \<Rightarrow> ('sk, 'vk) pbft_state \<Rightarrow> bool)
     \<Rightarrow> ('sk, 'vk) cluster \<Rightarrow> nat \<Rightarrow> ('sk, 'vk) cluster \<Rightarrow> bool"
  for L H D c0 where
  cluster_init: "cluster_reach L H D c0 0 c0"
| cluster_more: "cluster_reach L H D c0 k c \<Longrightarrow> cluster_step L H D c c' \<Longrightarrow> cluster_reach L H D c0 (Suc k) c'"

section \<open>Refinement\<close>

text \<open>The system that a group of programs stands for; \<open>y0\<close> fills in the replicas that are not correct.\<close>

definition engine_view :: "node_id set \<Rightarrow> ('sk, 'vk) system \<Rightarrow> ('sk, 'vk) cluster \<Rightarrow> ('sk, 'vk) system" where
  "engine_view H y0 c =
     \<lparr>sys_nodes = (\<lambda>i. if i \<in> H then rn_state (cl_programs c i) else sys_nodes y0 i),
      sys_signed = cl_signed c\<rparr>"

definition channels_signed :: "node_id set \<Rightarrow> ('sk, 'vk) cluster \<Rightarrow> bool" where
  "channels_signed H c \<longleftrightarrow> (\<forall>i\<in>H. {i} \<times> out_statements (rn_outgoing (cl_programs c i)) \<subseteq> cl_signed c)"

lemma main_turn_engine:
  assumes "main_turn L ev rn = (True, rn')"
  obtains (engine) e r s' es where "engine_event ev = Some e" "replica_step L e (rn_state rn) = (r, s', es)"
      "rn_state rn' = s'" "rn_outgoing rn' = rn_outgoing rn @ outgoing_of es"
  | (other) "rn_state rn' = rn_state rn" "set (rn_outgoing rn') \<subseteq> set (rn_outgoing rn)"
proof -
  have run: thesis if "engine_event ev = Some e" "run_engine (replica_step L e (rn_state rn)) rn = (True, rn')" for e
  proof -
    obtain r s' es where "replica_step L e (rn_state rn) = (r, s', es)" using prod_cases3 by blast
    with that show ?thesis by (intro engine [of e r s' es]) (auto simp: run_engine_def)
  qed
  show ?thesis
  proof (cases ev rule: engine_event.cases)
    case (1 now req)
    with assms show ?thesis by (intro run) (auto simp: main_turn_def as_replica_step)
  next
    case (2 now peer_id cm)
    with assms show ?thesis
      by (intro run) (auto simp: main_turn_def main_receive_def as_replica_step split: option.splits)
  next
    case "3_5"
    with assms show ?thesis
      by (intro other) (auto simp: main_turn_def dispatch_next_def split: list.splits)
  qed (use assms in \<open>auto intro!: other simp: main_turn_def main_receive_def\<close>)
qed

lemma cluster_step_refines:
  assumes "cluster_step L H D c c'" and "channels_signed H c"
  shows "channels_signed H c' \<and>
    (engine_view H y0 c' = engine_view H y0 c \<or> system_step L H D (engine_view H y0 c) (engine_view H y0 c'))"
  using assms(1)
proof cases
  case 1: (turn_at i ev rn')
  let ?rn = "cl_programs c i"
  have old: "{i} \<times> out_statements (rn_outgoing ?rn) \<subseteq> cl_signed c"
    using assms(2) 1(2) by (simp add: channels_signed_def)
  have ch: "channels_signed H c'"
    using assms(2) 1(1) by (auto simp: channels_signed_def)
  from 1(5) show ?thesis
  proof (cases rule: main_turn_engine)
    case (engine e r s' es)
    have "engine_view H y0 c' = \<lparr>sys_nodes = (sys_nodes (engine_view H y0 c))(i := s'),
        sys_signed = sys_signed (engine_view H y0 c) \<union> {i} \<times> statements es\<rparr>"
      using 1(1,2) engine(3,4) old by (auto simp: engine_view_def)
    moreover have "system_step L H D (engine_view H y0 c)
       \<lparr>sys_nodes = (sys_nodes (engine_view H y0 c))(i := s'),
        sys_signed = sys_signed (engine_view H y0 c) \<union> {i} \<times> statements es\<rparr>"
      using 1(2-4) engine by (intro event_at [where ev = e and r = r]) (auto simp: engine_view_def)
    ultimately show ?thesis using ch by simp
  next
    case other
    then have "out_statements (rn_outgoing rn') \<subseteq> out_statements (rn_outgoing ?rn)"
      by (auto simp: out_statements_def)
    with other old 1(1) have "engine_view H y0 c' = engine_view H y0 c"
      by (auto simp: engine_view_def fun_eq_iff)
    with ch show ?thesis by simp
  qed
qed

lemma cluster_refines:
  assumes "cluster_reach L H D c0 k c" and "channels_signed H c0" and "engine_view H y0 c0 = y0"
  shows "channels_signed H c \<and> (\<exists>m \<le> k. system_reach L H D y0 m (engine_view H y0 c))"
  using assms(1)
proof (induction rule: cluster_reach.induct)
  case cluster_init
  show ?case using assms(2,3) reach_init [of L H D y0] by auto
next
  case (cluster_more k c c')
  then obtain m where m: "m \<le> k" "system_reach L H D y0 m (engine_view H y0 c)" and "channels_signed H c" by blast
  with cluster_step_refines [OF cluster_more.hyps(2), of y0] show ?case
    using reach_step [OF m(2)] by (metis Suc_le_mono le_SucI)
qed

lemma reachable_channels:
  "cluster_reach L H D c0 k c \<Longrightarrow> channels_signed H c0 \<Longrightarrow> channels_signed H c"
  by (induction rule: cluster_reach.induct) (auto dest: cluster_step_refines)

section \<open>Programs started together\<close>

definition started_together ::
  "('sk, 'vk) crypto_lib \<Rightarrow> usize \<Rightarrow> node_id set \<Rightarrow> (node_id \<Rightarrow> instant) \<Rightarrow> ('sk, 'vk) cluster \<Rightarrow> bool" where
  "started_together L num_nodes H clock c \<longleftrightarrow>
     cl_signed c = {} \<and>
     (\<forall>i\<in>H. \<exists>idx W conns entropy port bootstrap ts. idx < unat num_nodes \<and> i = indexed_id L idx \<and>
        start_node L W None conns (clock i) entropy port None bootstrap num_nodes (Some (of_nat idx))
          = Ok (cl_programs c i, ts))"

lemma started_program:
  assumes "crypto_ok L" and "started_together L num_nodes H clock c0" and "i \<in> H"
  shows "\<exists>idx < unat num_nodes. i = indexed_id L idx \<and> rn_outgoing (cl_programs c0 i) = [] \<and>
    rn_state (cl_programs c0 i) = pbft_state_new (clock i) i (keypair_from_seed L (index_seed (of_nat idx)))
      (group_ids L (unat num_nodes)) (pbft_config_new num_nodes)"
proof -
  obtain idx W conns entropy port bootstrap ts where idx: "idx < unat num_nodes" "i = indexed_id L idx"
    and st: "start_node L W None conns (clock i) entropy port None bootstrap num_nodes (Some (of_nat idx))
        = Ok (cl_programs c0 i, ts)"
    using assms(2,3) unfolding started_together_def by blast
  from indexed_start_state [OF assms(1) st] idx show ?thesis by blast
qed

lemma started_channels:
  assumes "crypto_ok L" and "started_together L num_nodes H clock c0"
  shows "channels_signed H c0"
  unfolding channels_signed_def using started_program [OF assms] by fastforce

lemma started_view:
  assumes "crypto_ok L" and "started_together L num_nodes H clock c0"
    and key: "\<And>i. i < unat num_nodes \<Longrightarrow> keys (indexed_id L i) = keypair_from_seed L (index_seed (of_nat i))"
    and "y0 = system_init clock keys (group_ids L (unat num_nodes))"
  shows "engine_view H y0 c0 = y0"
proof -
  have "rn_state (cl_programs c0 i) = sys_nodes y0 i" if "i \<in> H" for i
    using started_program [OF assms(1,2) that] key by (auto simp: assms(4) system_init_def)
  moreover have "cl_signed c0 = {}" using assms(2) by (simp add: started_together_def)
  ultimately show ?thesis
    by (auto simp: engine_view_def assms(4) system_init_def)
qed

text \<open>What holds of the system of replicas holds of programs that are started together.\<close>

lemma started_refines:
  fixes num_nodes :: usize
  assumes "crypto_ok L" and "index_keys_distinct L" and "unat num_nodes = 3 * f + 1" and "num_nodes \<le> 256"
    and "H \<subseteq> set (group_ids L (unat num_nodes))" and "card (set (group_ids L (unat num_nodes)) - H) \<le> f"
    and "started_together L num_nodes H clock c0" and "cluster_reach L H D c0 k c"
  obtains keys y0 m where "y0 = system_init clock keys (group_ids L (unat num_nodes))"
    and "correct_group L keys (group_ids L (unat num_nodes)) f H" and "m \<le> k"
    and "system_reach L H D y0 m (engine_view H y0 c)"
proof -
  obtain keys where gr: "correct_group L keys (group_ids L (unat num_nodes)) f H"
    and key: "\<And>i. i < unat num_nodes \<Longrightarrow> keys (indexed_id L i) = keypair_from_seed L (index_seed (of_nat i))"
    using indexed_group [OF assms(1-6)] by blast
  let ?y = "system_init clock keys (group_ids L (unat num_nodes))"
  obtain m where "m \<le> k" "system_reach L H D ?y m (engine_view H ?y c)"
    using cluster_refines [OF assms(8) started_channels [OF assms(1,7)] started_view [OF assms(1,7) key refl]] by blast
  with gr show ?thesis by (intro that) simp_all
qed

section \<open>Properties\<close>

text \<open>
  C4. Programs of \<open>main.rs\<close> that are started with the indices of one group of \<open>3 f + 1 \<le> 256\<close> nodes
  refine the system of replicas: whatever their users type, their peers send and their sending tasks
  do, the engines' states are those of a run of the system with at most as many events.
\<close>

theorem programs_refine_system:
  assumes "crypto_ok L" and "index_keys_distinct L" and "unat num_nodes = 3 * f + 1" and "num_nodes \<le> 256"
    and "H \<subseteq> set (group_ids L (unat num_nodes))" and "card (set (group_ids L (unat num_nodes)) - H) \<le> f"
    and "started_together L num_nodes H clock c0" and "cluster_reach L H D c0 k c"
  shows "\<exists>keys y m. correct_group L keys (group_ids L (unat num_nodes)) f H \<and> m \<le> k \<and>
    system_reach L H D (system_init clock keys (group_ids L (unat num_nodes))) m y \<and>
    sys_signed y = cl_signed c \<and> (\<forall>i\<in>H. sys_nodes y i = rn_state (cl_programs c i))"
proof -
  obtain keys y0 m where "y0 = system_init clock keys (group_ids L (unat num_nodes))"
    and "correct_group L keys (group_ids L (unat num_nodes)) f H" "m \<le> k"
    and "system_reach L H D y0 m (engine_view H y0 c)"
    using started_refines [OF assms] by blast
  then show ?thesis
    by (intro exI [of _ keys] exI [of _ "engine_view H y0 c"] exI [of _ m]) (simp add: engine_view_def)
qed

text \<open>
  C3. Such programs agree, at one time and over time, under orderly delivery and with at most \<open>f\<close> of
  \<open>3 f + 1\<close> (at most 256) nodes Byzantine: a digest that one
  correct program holds as committed at a sequence number, in any state of the run, is the digest
  that every other correct program holds as committed there in every later state.
\<close>

theorem started_programs_agree:
  assumes "crypto_ok L" and "index_keys_distinct L" and "unat num_nodes = 3 * f + 1" and "num_nodes \<le> 256"
    and "H \<subseteq> set (group_ids L (unat num_nodes))" and "card (set (group_ids L (unat num_nodes)) - H) \<le> f"
    and "started_together L num_nodes H clock c0" and "cluster_reach L H orderly c0 k c"
    and "cluster_reach L H orderly c k' c'" and "k + k' < 2 ^ 64" and "i \<in> H" and "j \<in> H"
    and "hm_get (st_log (rn_state (cl_programs c i))) n = Some a" and "ci_phase a = Committed"
    and "hm_get (st_log (rn_state (cl_programs c' j))) n = Some b" and "ci_phase b = Committed"
  shows "ci_digest a = ci_digest b"
proof -
  obtain keys y0 m where y0: "y0 = system_init clock keys (group_ids L (unat num_nodes))"
    and gr: "correct_group L keys (group_ids L (unat num_nodes)) f H" and "m \<le> k"
    and reach: "system_reach L H orderly y0 m (engine_view H y0 c)"
    using started_refines [OF assms(1-8)] by blast
  have ch: "channels_signed H c"
    by (rule reachable_channels [OF assms(8) started_channels [OF assms(1,7)]])
  have "engine_view H (engine_view H y0 c) c = engine_view H y0 c" by (simp add: engine_view_def fun_eq_iff)
  then obtain m' where "m' \<le> k'"
    and reach': "system_reach L H orderly (engine_view H y0 c) m' (engine_view H (engine_view H y0 c) c')"
    using cluster_refines [OF assms(9) ch] by blast
  with \<open>m \<le> k\<close> assms(10) have lt: "m + m' < 2 ^ 64" by linarith
  show ?thesis
    using commits_stable [OF gr reach [unfolded y0] reach' [unfolded y0] lt assms(11,12), of n a b] assms(11-)
    by (auto simp: engine_view_def)
qed

section \<open>A group of four programs\<close>

text \<open>A run of the system that only receives messages is one of the programs.\<close>

lemma lift_step:
  assumes "system_step L H (\<lambda>ev s. D ev s \<and> is_receive ev \<and> fst (replica_step L ev s) \<noteq> Panic) y y'"
    and "engine_view H y0 c = y" and "channels_signed H c"
  shows "\<exists>c'. cluster_step L H D c c' \<and> engine_view H y0 c' = y' \<and> channels_signed H c'"
  using assms(1)
proof cases
  case 1: (event_at i ev r s' es)
  from 1(3) obtain now msg where ev: "ev = Receive now msg" by (cases ev) (auto simp: is_receive_def)
  let ?rn = "cl_programs c i"
  have s: "sys_nodes y i = rn_state ?rn" and S: "sys_signed y = cl_signed c"
    using assms(2) 1(2) by (auto simp: engine_view_def)
  let ?rn' = "?rn\<lparr>rn_state := s', rn_outgoing := rn_outgoing ?rn @ outgoing_of es,
    rn_committed := rn_committed ?rn @ committed_of es\<rparr>"
  let ?c = "\<lparr>cl_programs = (cl_programs c)(i := ?rn'),
    cl_signed = cl_signed c \<union> {i} \<times> out_statements (rn_outgoing ?rn')\<rparr>"
  have "main_turn L (Network_Message now toy_peer (Consensus msg)) ?rn = (True, ?rn')"
    using 1(3,5) ev s by (simp add: main_turn_def main_receive_def toy_peer_short as_replica_step run_engine_def)
  then have step: "cluster_step L H D c ?c"
    using 1(2,3,4) ev s S by (intro turn_at) auto
  have "{i} \<times> out_statements (rn_outgoing ?rn) \<subseteq> cl_signed c"
    using assms(3) 1(2) by (simp add: channels_signed_def)
  then have "engine_view H y0 ?c = y'"
    using 1(1,2) S assms(2) by (auto simp: engine_view_def)
  with step cluster_step_refines [OF step assms(3)] show ?thesis by blast
qed

lemma lift_reach:
  assumes "system_reach L H (\<lambda>ev s. D ev s \<and> is_receive ev \<and> fst (replica_step L ev s) \<noteq> Panic) y0 m y"
    and "engine_view H y0 c0 = y0" and "channels_signed H c0"
  shows "\<exists>c. cluster_reach L H D c0 m c \<and> engine_view H y0 c = y \<and> channels_signed H c"
  using assms(1)
proof (induction rule: system_reach.induct)
  case reach_init
  with assms(2,3) show ?case by (intro exI [of _ c0]) (simp add: cluster_init)
next
  case (reach_step m y y')
  then obtain c where c: "cluster_reach L H D c0 m c" "engine_view H y0 c = y" "channels_signed H c" by blast
  from lift_step [OF reach_step.hyps(2) c(2,3)] show ?case using cluster_more [OF c(1)] by blast
qed

definition toy_cluster :: "(byte, byte) cluster" where
  "toy_cluster =
     \<lparr>cl_programs = (\<lambda>i. \<lparr>rn_node_id = i, rn_network = (network_new i 8000)\<lparr>nw_receiver := False\<rparr>,
        rn_state = sys_nodes toy_group i, rn_outgoing = [], rn_committed = []\<rparr>), cl_signed = {}\<rparr>"

lemma index_seed_byte: "index_seed (of_nat i) = of_nat i # replicate 31 0"
proof -
  have "ucast (of_nat i :: usize) = (of_nat i :: byte)"
    unfolding word_unat_eq_iff unat_index_byte by (simp add: unat_of_nat)
  then show ?thesis by (simp add: index_seed_def numeral_eq_Suc)
qed

lemma indexed_id_toy: "indexed_id toy_lib i = toy_id (of_nat i)"
  by (simp add: indexed_id_def toy_id_def toy_keypair_def index_seed_byte)

lemma toy_hex_order:
  "toy_id b = hex_digits ! (unat b div 16) # hex_digits ! (unat b mod 16) # toy_hex_encode (replicate 31 0)"
  by (simp add: toy_id_def public_key_hex_def public_key_bytes_def toy_keypair_def keypair_from_seed_def
      toy_lib_def pad32_single)

lemma group_ids_toy: "group_ids toy_lib 4 = map toy_id [0, 1, 2, 3]"
proof -
  have "sorted (map toy_id [0, 1, 2, 3])"
    by (simp add: toy_hex_order hex_digits_def less_eq_char_def)
  then show ?thesis
    by (simp add: group_ids_def upt_rec indexed_id_toy sorted_sort_id)
qed

lemma toy_cluster_started: "started_together toy_lib 4 toy_correct (\<lambda>_. 0) toy_cluster"
proof -
  have one: "start_node toy_lib toy_wire None (\<lambda>_. None) 0 [] 8000 None [] 4 (Some (of_nat i))
      = Ok (cl_programs toy_cluster (indexed_id toy_lib i), [Accept_Task])" if "i < 3" for i
  proof -
    have kp: "cli_keypair toy_lib [] None (Some (of_nat i)) = Ok (toy_keypair (of_nat i))"
      by (simp add: cli_keypair_def toy_keypair_def index_seed_byte)
    have st: "sys_nodes toy_group (toy_id (of_nat i)) = member (of_nat i)"
      using that by (intro toy_group_nodes(1)) (auto simp: numeral_3_eq_3 less_Suc_eq)
    from start_node_eq [OF kp _ cli_replicas_eq [OF toy_lib_ok], where W = toy_wire and conns = "\<lambda>_. None" and
        bootstrap = "[]" and port = 8000 and now = 0 and num_nodes = 4] show ?thesis
      by (simp add: toy_cluster_def indexed_id_toy st member_def group_ids_toy)
  qed
  have index: "\<exists>i<3. k = indexed_id toy_lib i" if "k \<in> toy_correct" for k
    using that by (auto simp: toy_correct_def indexed_id_toy intro: exI [of _ 0] exI [of _ 1] exI [of _ 2])
  show ?thesis
    unfolding started_together_def
  proof (intro conjI ballI)
    show "cl_signed toy_cluster = {}" by (simp add: toy_cluster_def)
    fix k
    assume "k \<in> toy_correct"
    then obtain i where i: "i < 3" "k = indexed_id toy_lib i" using index by blast
    from one [OF i(1)] i show "\<exists>idx W conns entropy port bootstrap ts. idx < unat (4 :: usize) \<and>
        k = indexed_id toy_lib idx \<and> start_node toy_lib W None conns 0 entropy port None bootstrap 4
          (Some (of_nat idx)) = Ok (cl_programs toy_cluster k, ts)"
      by (intro exI [of _ i] exI conjI) simp_all
  qed
qed

lemma toy_group_eq: "toy_group = system_init (\<lambda>_. 0) toy_keys (group_ids toy_lib (unat (4 :: usize)))"
  by (simp add: toy_group_def group_ids_toy)

lemma toy_programs_run:
  obtains c where "cluster_reach toy_lib toy_correct orderly toy_cluster 13 c"
    and "rn_state (cl_programs c (toy_id 1)) = fst (snd backup_2)"
    and "rn_state (cl_programs c (toy_id 2)) = fst (snd backup_3)"
proof -
  have "engine_view toy_correct toy_group toy_cluster =
      \<lparr>sys_nodes = sys_nodes toy_group, sys_signed = sys_signed toy_group\<rparr>"
    unfolding toy_group_nodes(2) by (auto simp: engine_view_def toy_cluster_def)
  then have view: "engine_view toy_correct toy_group toy_cluster = toy_group" by simp
  have "system_reach toy_lib toy_correct
      (\<lambda>ev s. orderly ev s \<and> is_receive ev \<and> fst (replica_step toy_lib ev s) \<noteq> Panic) toy_group 13 group_5"
    by (rule sample_run) simp
  then obtain c where c: "cluster_reach toy_lib toy_correct orderly toy_cluster 13 c"
    and v: "engine_view toy_correct toy_group c = group_5"
    using lift_reach [OF _ view started_channels [OF toy_lib_ok toy_cluster_started]] by blast
  have "sys_nodes group_5 i = rn_state (cl_programs c i)" if "i \<in> toy_correct" for i
    using that unfolding v [symmetric] by (simp add: engine_view_def)
  with c that group_nodes(6,7) show ?thesis by (simp add: toy_correct_def)
qed

lemma toy_four: "unat (4 :: usize) = 3 * 1 + 1" "(4 :: usize) \<le> 256"
  "toy_correct \<subseteq> set (group_ids toy_lib (unat (4 :: usize)))"
  "card (set (group_ids toy_lib (unat (4 :: usize))) - toy_correct) \<le> 1"
  by (auto simp: group_ids_toy toy_correct_def insert_Diff_if simp del: group_ids_simps)

theorem programs_refine_system_witness:
  "\<exists>c keys y m. cluster_reach toy_lib toy_correct orderly toy_cluster 13 c \<and>
     system_reach toy_lib toy_correct orderly (system_init (\<lambda>_. 0) keys (group_ids toy_lib 4)) m y \<and>
     sys_nodes y (toy_id 2) = rn_state (cl_programs c (toy_id 2))"
proof -
  obtain c where c: "cluster_reach toy_lib toy_correct orderly toy_cluster 13 c"
    using toy_programs_run by blast
  have "toy_id 2 \<in> toy_correct" by (simp add: toy_correct_def)
  with c programs_refine_system [OF toy_lib_ok toy_index_keys toy_four toy_cluster_started c]
  show ?thesis by fastforce
qed

theorem started_programs_agree_witness:
  "\<exists>c a b. cluster_reach toy_lib toy_correct orderly toy_cluster 13 c \<and>
     hm_get (st_log (rn_state (cl_programs c (toy_id 1)))) 1 = Some a \<and> ci_phase a = Committed \<and>
     hm_get (st_log (rn_state (cl_programs c (toy_id 2)))) 1 = Some b \<and> ci_digest a = ci_digest b"
proof -
  obtain c where c: "cluster_reach toy_lib toy_correct orderly toy_cluster 13 c"
    and rn: "rn_state (cl_programs c (toy_id 1)) = fst (snd backup_2)"
      "rn_state (cl_programs c (toy_id 2)) = fst (snd backup_3)"
    by (rule toy_programs_run)
  obtain a b where ab: "hm_get (st_log (rn_state (cl_programs c (toy_id 1)))) 1 = Some a" "ci_phase a = Committed"
    "hm_get (st_log (rn_state (cl_programs c (toy_id 2)))) 1 = Some b" "ci_phase b = Committed"
    using backup_2(2) backup_3(2) rn by auto
  have "ci_digest a = ci_digest b"
    by (rule started_programs_agree [OF toy_lib_ok toy_index_keys toy_four toy_cluster_started c cluster_init
        _ _ _ ab]) (simp_all add: toy_correct_def)
  with c ab show ?thesis by blast
qed

end
