(* ===== verification/Spec2Isabelle.thy ===== *)
theory Spec2Isabelle
  imports Replica_Properties Phase_Order Weak_Checks Limits Collected_Votes Mesh Program_Group
begin

text \<open>
  A Rust program in which nodes connect to each other over TCP and agree on client requests by the
  Practical Byzantine Fault Tolerance protocol. All paths below are under \<open>src/src\<close>.

  \<^bold>\<open>The program.\<close> \<open>main.rs\<close> reads the options, builds a key pair, opens a \<open>Network\<close>
  (\<open>network.rs\<close>), connects to the bootstrap peers and to the peers that these know, and creates a
  \<open>PbftConsensus\<close> (\<open>pbft.rs\<close>). Then it loops: a line of the user becomes a request for the engine, a
  message of a peer goes to \<open>process_message\<close>. The engine answers through two channels: a task hands
  the outgoing messages to the peers, another one logs the delivered requests. \<open>node.rs\<close> has the same
  structure as a library: a builder, a node, and a loop of its own. \<open>message.rs\<close> defines what is sent
  and \<open>crypto.rs\<close> the signatures.

  \<^bold>\<open>The model of the code.\<close> Every function of the source is a definition of the same name (a method
  \<open>new\<close> has its type's name in front, a name that would clash a prefix) that takes the
  state and returns the result, the new state and the effects; a Rust panic is the result \<open>Panic\<close>,
  or \<open>None\<close> where a function has no other error.
  \<^item> \<open>Prelude\<close>: machine integers, results, little-endian bytes, runs with effects. \<open>Hash_Map\<close>: the part
    of \<open>HashMap\<close> that is used. \<open>Format\<close>: \<open>format!\<close> of numbers and byte arrays.
  \<^item> \<open>Crypto\<close> is \<open>crypto.rs\<close> with the two helpers of \<open>pbft.rs\<close> that read an identifier as a key.
    \<open>Messages\<close> is \<open>message.rs\<close> with the texts that \<open>pbft.rs\<close> signs.
  \<^item> \<open>pbft.rs\<close>: \<open>Replica_State\<close> (\<open>PbftState\<close>, \<open>PbftConfig\<close>, \<open>ConsensusInstance\<close>), \<open>Normal_Case\<close>
    (requests, pre-prepares, prepares, commits), \<open>Checkpointing\<close>, \<open>View_Changes\<close>, and \<open>Engine\<close>
    (\<open>process_message\<close>, and runs of one replica). A block of the source that holds the state lock is a
    \<open>_section\<close> definition; sends happen between the sections, as in the code.
  \<^item> \<open>network.rs\<close>: \<open>Framing\<close> (\<open>send_message\<close>, \<open>receive_message\<close>, the reader and writer tasks) and \<open>Peers\<close>
    (\<open>Network\<close>, \<open>NetworkHandle\<close>, the handshakes, the accept loop, broadcast and targeted sends). A task that
    the code spawns is a value that the operation returns. The parameter \<open>info\<close> says whether the log level INFO
    is enabled, which decides whether the slices in log lines are taken; \<open>main.rs\<close> enables it.
  \<^item> \<open>Node_Runtime\<close>: \<open>node.rs\<close>, and the message loop and sending task of \<open>main.rs\<close>. \<open>Command_Line\<close>:
    the rest of \<open>main.rs\<close>, that is keys, replica lists, \<open>start_node\<close>, \<open>keygen\<close>, \<open>main\<close>, the status report
    and the commands of the user.

  \<^bold>\<open>One replica.\<close> \<open>Atomic_Updates\<close> breaks every handler into the updates of its lock sections; an
  invariant is checked once per update and holds then for all runs (locale \<open>history_invariant\<close>).
  \<open>Replica_Invariants\<close> and \<open>Replica_Safety\<close> hold these invariants: entries of the log with verified
  votes of a quorum, no panic, execution at most once, forward movement, rejected messages that change
  nothing. \<open>Phase_Order\<close> follows one log entry over time. \<open>Replica_Progress\<close> shows that no entry waits
  for votes it has, \<open>Delivery\<close> that the messages of one instance deliver its request in whatever order
  they come, \<open>Collected_Votes\<close> what checkpoints and view changes do. \<open>Replica_Properties\<close> states the
  properties over runs, \<open>Scenarios\<close> has the concrete replicas for the witnesses.

  \<^bold>\<open>The group.\<close> \<open>Quorums\<close> is the arithmetic of \<open>PbftConfig::quorum\<close>. \<open>System_Model\<close> runs the correct
  replicas beside an adversary that delivers any message, in any order and any number of times,
  except forged signatures of correct replicas (\<open>authentic\<close>). \<open>Agreement\<close> proves that prepare
  certificates of one view agree, with no further condition, and that committed entries agree under
  \<open>orderly\<close>: a prepare comes from a member, after the pre-prepare of its number, and nobody
  announces a new view. \<open>Ledger\<close> is the abstract specification, a log written once per sequence
  number from which replicas execute each digest once, and the refinement of it by the group.
  \<open>Group_Run\<close> is a concrete run of four, \<open>Limits\<close> one without \<open>orderly\<close> that ends in a disagreement.
  \<open>Weak_Checks\<close> proves, for every library, group and state, what the handlers do not check: votes of
  outsiders count, a new primary uses a number and its votes again, requests are executed in the
  order of their commits, and fields of a request can move across their boundaries under one digest.

  \<^bold>\<open>The nodes.\<close> \<open>Framing\<close> proves that a reader gets what a writer sent, \<open>Peers\<close> what the
  operations do to the peer table and when they panic, \<open>Mesh\<close> that joining through one peer reaches the
  peers it knows, \<open>Node_Properties\<close> the order of sending and when the loops stop, \<open>Program_Start\<close> which
  groups the options set up. \<open>Program_Group\<close> puts programs beside each other: a step is one turn of one
  program's loop. The group refines \<open>System_Model\<close>, so agreement holds of started programs.

  \<^bold>\<open>Assumptions.\<close> The crates \<open>sha2\<close>, \<open>ed25519_dalek\<close>, \<open>hex\<close> and \<open>bincode\<close> are the parameters
  \<open>crypto_lib\<close> and \<open>wire_lib\<close>; \<open>crypto_ok\<close> and \<open>wire_ok\<close> are their documented round trips and lengths,
  \<open>index_keys_distinct\<close> says that the 256 index seeds give different keys. Each has an
  instance (\<open>toy_lib\<close>, \<open>toy_wire\<close>) on which the witnesses evaluate. That signatures cannot be forged
  is \<open>authentic\<close>, a condition on the messages of the adversary. No theorem assumes that SHA-256 has
  no collisions: agreement is agreement on digests.

  \<^bold>\<open>Bounds.\<close> Integers have the widths of a 64-bit target and wrap as in a release build. Runs of a
  group are limited to fewer than \<open>2 ^ 64\<close> events, so that sequence numbers do not wrap; \<open>Delivery\<close> is
  about the first window of 200 numbers in view 0, the one that a fresh replica accepts; groups by
  index have at most 256 nodes, because the index is cut to a byte. No function needs fuel: every
  loop recurs on its input, or has a measure (the stream in \<open>Framing\<close>, the open connections in
  \<open>Mesh\<close>, the text in \<open>Command_Line\<close>).

  \<^bold>\<open>Not modelled.\<close>
  \<^item> TCP and the \<open>tokio\<close> runtime: a connection is the bytes it delivers and takes; the tasks that an
    operation spawns are run in one order in \<open>Mesh\<close>, and turn by turn in \<open>Program_Group\<close>. The handlers of
    the engine run to their end there, as both loops await them.
  \<^item> The capacities of the channels: a send never waits. The branches for closed channels of the
    tasks' \<open>select!\<close> and \<open>while let\<close> end the tasks and do nothing else.
  \<^item> Log output and printed text, except that a slice taken for it can panic, which is kept (for \<open>info!\<close>,
    when INFO is enabled). The text of errors.
  \<^item> The parsing of options by \<open>clap\<close> (the parsed command is the argument of \<open>run_program\<close>) and the
    set-up of logging.
  \<^item> The iteration order of \<open>HashMap::values\<close>, which Rust leaves open: the model uses the order of
    insertion.
  \<^item> Accessors (\<open>Node::id\<close>, \<open>Node::peers\<close>, \<open>NetworkHandle::get_peers\<close> and the copy of \<open>broadcast\<close> there,
    which nothing calls), the re-exports of \<open>lib.rs\<close>, the tests, and the script that starts a group.
\<close>

end
